theory Spec2Isabelle
  imports Main
begin

section \<open>Data model\<close>

text \<open>
  Topics, peer identifiers (the Base58 text of a peer id) and message identifiers are
  JavaScript strings. A callback is a function object; the model keeps its identity only
  and records each invocation as an event.
\<close>

type_synonym topic = string
type_synonym peerid = string
type_synonym msgid = string
type_synonym callback = nat

text \<open>
  The \<^verbatim>\<open>Message\<close> and \<^verbatim>\<open>SubOpts\<close> records of \<^verbatim>\<open>rpc.proto.js\<close>, and the
  \<^verbatim>\<open>RPC\<close> record that carries them. An object literal such as \<^verbatim>\<open>{ msgs: msgs }\<close> has
  no \<^verbatim>\<open>subscriptions\<close> property: an absent property is \<open>None\<close>. The field
  \<^verbatim>\<open>from\<close> is named \<open>msg_from\<close> and \<^verbatim>\<open>subscribe\<close> is named \<open>so_subscribe\<close>.
  \<^verbatim>\<open>hops\<close> is a JavaScript number holding an int32; the code only compares it with 0
  and subtracts 1 from a positive value, so no wrap-around can occur.
\<close>

record message =
  msg_from :: string
  data :: string
  seqno :: string
  hops :: int
  topicIDs :: "topic list"

record subopts =
  so_subscribe :: bool
  topicCID :: topic

record rpc =
  rpc_subscriptions :: "subopts list option"
  rpc_msgs :: "message list option"

text \<open>JavaScript errors: \<^verbatim>\<open>new Error(msg)\<close>, a failed \<^verbatim>\<open>assert\<close>, and a \<^verbatim>\<open>TypeError\<close>.\<close>

datatype error = Error string | AssertionError string | TypeError string

text \<open>The lines written through \<^verbatim>\<open>this.log\<close>.\<close>

datatype logline =
    LogRpcFrom peerid
  | LogSkipHops
  | LogHasHooks
  | LogNoHooks
  | LogError error
  | LogPublishMsgs "topic list" peerid
  | LogPublish "topic list" "string list"

text \<open>
  The effects of the engine that are visible outside it, in the order in which the code
  performs them: \<^verbatim>\<open>cache.put\<close>, \<^verbatim>\<open>this.emit(topic, message)\<close>, \<^verbatim>\<open>stream.push\<close> on a
  peer, the invocation of a callback, the registration of the one-shot
  \<^verbatim>\<open>connection\<close> listener of \<^verbatim>\<open>subscribe\<close>, and a log line.
\<close>

datatype event =
    CachePut msgid
  | Emit topic message
  | Push peerid rpc
  | Called callback "error option"
  | OnConnection peerid
  | Log logline

fun is_Emit :: "event \<Rightarrow> bool" where
  "is_Emit (Emit t m) = True"
| "is_Emit e = False"

subsection \<open>JavaScript \<^verbatim>\<open>Set\<close> and \<^verbatim>\<open>Map\<close>\<close>

text \<open>
  A \<^verbatim>\<open>Set\<close> iterates in insertion order and holds no duplicates: a list. A \<^verbatim>\<open>Map\<close>
  is an association list; \<^verbatim>\<open>set\<close> on a present key keeps the key's position.
\<close>

definition set_add :: "'a list \<Rightarrow> 'a \<Rightarrow> 'a list" where
  "set_add s x = (if x \<in> set s then s else s @ [x])"

definition set_delete :: "'a list \<Rightarrow> 'a \<Rightarrow> 'a list" where
  "set_delete s x = filter (\<lambda>y. y \<noteq> x) s"

fun map_set :: "('k \<times> 'v) list \<Rightarrow> 'k \<Rightarrow> 'v \<Rightarrow> ('k \<times> 'v) list" where
  "map_set [] k v = [(k, v)]"
| "map_set ((k', v') # m) k v = (if k' = k then (k, v) # m else (k', v') # map_set m k v)"

text \<open>
  The argument of \<^verbatim>\<open>sendSubscriptions\<close> is documented as \<^verbatim>\<open>{Set|Array}\<close>: the dial hook
  passes the \<^verbatim>\<open>Set\<close> of local subscriptions, \<^verbatim>\<open>subscribe\<close> passes an array. Only a
  \<^verbatim>\<open>Set\<close> has a \<^verbatim>\<open>size\<close> property; on an array it is \<^verbatim>\<open>undefined\<close>.
\<close>

datatype collection = JSet "topic list" | JArray "topic list"

fun elems :: "collection \<Rightarrow> topic list" where
  "elems (JSet ts) = ts"
| "elems (JArray ts) = ts"

fun size_prop :: "collection \<Rightarrow> nat option" where
  "size_prop (JSet ts) = Some (length ts)"
| "size_prop (JArray ts) = None"

section \<open>Helpers of \<^verbatim>\<open>utils\<close>\<close>

text \<open>
  Modelled from the spec: \<^verbatim>\<open>utils.msgId\<close> is not among the sources; the spec derives the
  message identifier as the concatenation of \<^verbatim>\<open>from\<close> and the textual form of
  \<^verbatim>\<open>seqno\<close>.
\<close>

definition msgId :: "string \<Rightarrow> string \<Rightarrow> msgid" where
  "msgId frm sq = frm @ sq"

text \<open>
  Modelled from the spec: \<^verbatim>\<open>utils.anyMatch\<close> is not among the sources; the spec skips a
  peer when its topics and the forwarded topics are disjoint.
\<close>

definition anyMatch :: "topic list \<Rightarrow> topic list \<Rightarrow> bool" where
  "anyMatch a b = list_ex (\<lambda>v. v \<in> set b) a"

text \<open>
  Modelled from the spec: \<^verbatim>\<open>utils.normalizeInRpcMessages\<close>, \<^verbatim>\<open>utils.normalizeOutRpcMessages\<close>
  and the conversions \<^verbatim>\<open>Buffer.from\<close> and \<^verbatim>\<open>toString\<close> are not among the sources; the
  spec says that normalisation canonicalizes the byte and text forms of \<^verbatim>\<open>from\<close> and
  \<^verbatim>\<open>seqno\<close>. The model keeps one form of each field, so all four leave a record as it is.
\<close>

definition normalizeInRpcMessages :: "message list \<Rightarrow> message list" where
  "normalizeInRpcMessages ms = ms"

definition normalizeOutRpcMessages :: "message list \<Rightarrow> message list" where
  "normalizeOutRpcMessages ms = ms"

definition toString :: "string \<Rightarrow> string" where
  "toString b = b"

definition Buffer_from :: "string \<Rightarrow> string" where
  "Buffer_from s = s"

section \<open>The peer record (\<^verbatim>\<open>peer.js\<close>)\<close>

text \<open>
  \<^verbatim>\<open>info\<close> stands for \<^verbatim>\<open>info.id.toB58String()\<close>, the only use the code makes of it.
  \<^verbatim>\<open>stream\<close> is the pushable: \<open>None\<close> for \<^verbatim>\<open>null\<close>, otherwise the queue of records
  pushed so far.
\<close>

record peer =
  info :: peerid
  topics :: "topic list"
  stream :: "rpc list option"
  references :: int

definition isWritable :: "peer \<Rightarrow> bool" where
  "isWritable p = (stream p \<noteq> None)"

text \<open>
  \<^verbatim>\<open>cb = cb || noop\<close>: an omitted callback leaves no trace when it is invoked.
  The method \<^verbatim>\<open>write\<close> is named \<open>peer_write\<close>.
\<close>

fun call :: "callback option \<Rightarrow> error option \<Rightarrow> event list" where
  "call None arg = []"
| "call (Some c) arg = [Called c arg]"

definition peer_write :: "peer \<Rightarrow> rpc \<Rightarrow> callback option \<Rightarrow> peer \<times> event list" where
  "peer_write p msg cb =
     (case stream p of
        None \<Rightarrow> (p, call cb (Some (Error (''No writable connection to '' @ info p))))
      | Some q \<Rightarrow> (p\<lparr>stream := Some (q @ [msg])\<rparr>, Push (info p) msg # call cb None))"

definition sendRawSubscriptions :: "peer \<Rightarrow> collection \<Rightarrow> bool \<Rightarrow> peer \<times> event list" where
  "sendRawSubscriptions p ts subscribe =
     (if size_prop ts = Some 0 then (p, [])
      else peer_write p \<lparr>rpc_subscriptions =
                      Some (map (\<lambda>t. \<lparr>so_subscribe = subscribe, topicCID = t\<rparr>) (elems ts)),
                    rpc_msgs = None\<rparr> None)"

definition sendSubscriptions :: "peer \<Rightarrow> collection \<Rightarrow> peer \<times> event list" where
  "sendSubscriptions p ts = sendRawSubscriptions p ts True"

definition sendUnsubscriptions :: "peer \<Rightarrow> collection \<Rightarrow> peer \<times> event list" where
  "sendUnsubscriptions p ts = sendRawSubscriptions p ts False"

definition sendMessages :: "peer \<Rightarrow> message list \<Rightarrow> peer \<times> event list" where
  "sendMessages p ms = peer_write p \<lparr>rpc_subscriptions = None, rpc_msgs = Some ms\<rparr> None"

definition updateSubscriptions :: "peer \<Rightarrow> subopts list \<Rightarrow> peer" where
  "updateSubscriptions p changes =
     fold (\<lambda>subopt q.
             if so_subscribe subopt then q\<lparr>topics := set_add (topics q) (topicCID subopt)\<rparr>
             else q\<lparr>topics := set_delete (topics q) (topicCID subopt)\<rparr>) changes p"

section \<open>The multicast engine (\<^verbatim>\<open>index.js\<close>)\<close>

text \<open>
  The state of the base protocol class: the peer map, keyed by the Base58 text of the
  peer id, the \<^verbatim>\<open>started\<close> flag, and the local peer id read through
  \<^verbatim>\<open>this.libp2p.peerInfo.id.toB58String()\<close>. The engine extends it with the duplicate
  suppression cache, the local subscriptions and the registry of forwarding validators.

  The cache is the \<^verbatim>\<open>TimeCache\<close> of an external library. The model covers one validity
  window: \<^verbatim>\<open>put\<close> inserts an identifier, \<^verbatim>\<open>has\<close> is membership, and no entry expires.

  The sources hold two forms of the engine, which differ in the registry and in
  \<^verbatim>\<open>_forwardMessages\<close> only. In \<^verbatim>\<open>src/index.js\<close> the registry is \<^verbatim>\<open>_fwrdValidators\<close>
  and a validator is a function \<^verbatim>\<open>(peer, msg): bool\<close>; in the other form the registry is
  \<^verbatim>\<open>fwrdHooks\<close> and a hook is a function \<^verbatim>\<open>(peer, msg, callback)\<close>. The record has one
  field, \<open>fwrdHooks\<close>, for the registry, with the type of its members as a parameter.
\<close>

record base =
  peers :: "(peerid \<times> peer) list"
  started :: bool
  libp2p_peerId :: peerid

record 'h multicast = base +
  cache :: "msgid set"
  subscriptions :: "topic list"
  fwrdHooks :: "(topic \<times> 'h list) list"

text \<open>
  A function object has an identity, by which a \<^verbatim>\<open>Set\<close> of functions compares its
  members, and a behaviour. A validator of \<^verbatim>\<open>src/index.js\<close> returns a truthy or falsy
  value. A hook of the other form answers through its callback: \<^verbatim>\<open>cb(null, true)\<close>,
  \<^verbatim>\<open>cb(null, false)\<close> or \<^verbatim>\<open>cb()\<close>, or \<^verbatim>\<open>cb(err)\<close>. The model covers hooks that call
  back before they return. Validators, hooks, listeners and callbacks are functions of
  the caller: one that throws is outside the model.
\<close>

datatype validator = Validator nat "peer \<Rightarrow> message \<Rightarrow> bool"

fun validate :: "validator \<Rightarrow> peer \<Rightarrow> message \<Rightarrow> bool" where
  "validate (Validator n f) p m = f p m"

datatype verdict = Approve | Reject | Fail error

datatype hook = Hook nat "peer \<Rightarrow> message \<Rightarrow> verdict"

fun run_hook :: "hook \<Rightarrow> peer \<Rightarrow> message \<Rightarrow> verdict" where
  "run_hook (Hook n f) p m = f p m"

text \<open>\<^verbatim>\<open>addFrwdValidator\<close> of \<^verbatim>\<open>src/index.js\<close> has the same body as \<^verbatim>\<open>addFrwdHook\<close>.\<close>

definition addFrwdHook :: "'h multicast \<Rightarrow> topic \<Rightarrow> 'h \<Rightarrow> 'h multicast" where
  "addFrwdHook st topic hook =
     (let validators = (case map_of (fwrdHooks st) topic of None \<Rightarrow> [] | Some s \<Rightarrow> s)
      in st\<lparr>fwrdHooks := map_set (fwrdHooks st) topic (set_add validators hook)\<rparr>)"

definition removeFrwdHook :: "'h multicast \<Rightarrow> topic \<Rightarrow> 'h \<Rightarrow> 'h multicast" where
  "removeFrwdHook st topic hook =
     (case map_of (fwrdHooks st) topic of
        None \<Rightarrow> st
      | Some validators \<Rightarrow>
          st\<lparr>fwrdHooks := map_set (fwrdHooks st) topic (set_delete validators hook)\<rparr>)"

definition emitMessages :: "topic list \<Rightarrow> topic list \<Rightarrow> message list \<Rightarrow> event list" where
  "emitMessages subs ts messages =
     concat (map (\<lambda>topic. if topic \<in> set subs then map (Emit topic) messages else []) ts)"

subsection \<open>\<^verbatim>\<open>_forwardMessages\<close> with synchronous validators (\<^verbatim>\<open>src/index.js\<close>)\<close>

definition filterValid :: "(topic \<times> validator list) list \<Rightarrow> peer \<Rightarrow> topic \<Rightarrow> message list \<Rightarrow> message list" where
  "filterValid reg p topic msgs =
     (case map_of reg topic of
        None \<Rightarrow> msgs
      | Some validators \<Rightarrow>
          filter (\<lambda>msg. list_all (\<lambda>validator. validate validator p msg) validators) msgs)"

definition forwardPeer :: "(topic \<times> validator list) list \<Rightarrow> topic list \<Rightarrow> message list \<Rightarrow> peer \<Rightarrow> peer \<times> event list" where
  "forwardPeer reg ts messages p =
     (if \<not> isWritable p \<or> \<not> anyMatch (topics p) ts then (p, [])
      else
        let msgs = fold (filterValid reg p) (topics p) messages;
            (p', evs) = sendMessages p (normalizeOutRpcMessages msgs)
        in (p', evs @ [Log (LogPublishMsgs ts (info p))]))"

fun forwardMessages :: "(topic \<times> validator list) list \<Rightarrow> (peerid \<times> peer) list \<Rightarrow> topic list \<Rightarrow> message list \<Rightarrow> (peerid \<times> peer) list \<times> event list" where
  "forwardMessages reg [] ts messages = ([], [])"
| "forwardMessages reg ((k, p) # ps) ts messages =
     (let (p', evs) = forwardPeer reg ts messages p;
          (ps', evs') = forwardMessages reg ps ts messages
      in ((k, p') # ps', evs @ evs'))"

subsection \<open>\<^verbatim>\<open>_forwardMessages\<close> with callback hooks (the other form)\<close>

text \<open>
  \<^verbatim>\<open>every\<close> and \<^verbatim>\<open>filter\<close> of the \<^verbatim>\<open>async\<close> library, for iteratees that call back before
  they return: the final callback of \<^verbatim>\<open>every\<close> fires once, at the first hook that
  errors or answers falsy; \<^verbatim>\<open>filter\<close> yields the error of the first item whose test
  errors, and otherwise the items whose test was truthy, in order.
\<close>

fun every :: "hook list \<Rightarrow> peer \<Rightarrow> message \<Rightarrow> error + bool" where
  "every [] p msg = Inr True"
| "every (h # hs) p msg =
     (case run_hook h p msg of
        Fail err \<Rightarrow> Inl err
      | Reject \<Rightarrow> Inr False
      | Approve \<Rightarrow> every hs p msg)"

fun filter_async :: "('a \<Rightarrow> error + bool) \<Rightarrow> 'a list \<Rightarrow> error + 'a list" where
  "filter_async f [] = Inr []"
| "filter_async f (x # xs) =
     (case f x of
        Inl err \<Rightarrow> Inl err
      | Inr b \<Rightarrow>
          (case filter_async f xs of
             Inl err \<Rightarrow> Inl err
           | Inr r \<Rightarrow> Inr (if b then x # r else r)))"

definition hookTest :: "hook list \<Rightarrow> peer \<Rightarrow> topic \<Rightarrow> message \<Rightarrow> error + bool" where
  "hookTest validators p topic msg =
     (if topic \<notin> set (topicIDs msg) then Inr False else every validators p msg)"

definition forwardTopicA :: "(topic \<times> hook list) list \<Rightarrow> topic list \<Rightarrow> message list \<Rightarrow> topic \<Rightarrow> peer \<times> event list \<Rightarrow> peer \<times> event list" where
  "forwardTopicA reg ts messages topic acc =
     (let (p, evs) = acc in
      case map_of reg topic of
        Some validators \<Rightarrow>
          (case filter_async (hookTest validators p topic) messages of
             Inl err \<Rightarrow> (p, evs @ [Log LogHasHooks, Log (LogError err)])
           | Inr msgs \<Rightarrow>
               if length msgs > 0 then
                 (let (p', evs') = sendMessages p (normalizeOutRpcMessages msgs)
                  in (p', evs @ [Log LogHasHooks] @ evs' @ [Log (LogPublishMsgs ts (info p))]))
               else (p, evs @ [Log LogHasHooks]))
      | None \<Rightarrow>
          (let (p', evs') = sendMessages p (normalizeOutRpcMessages messages)
           in (p', evs @ [Log LogNoHooks] @ evs' @ [Log (LogPublishMsgs ts (info p))])))"

definition forwardPeerA :: "(topic \<times> hook list) list \<Rightarrow> topic list \<Rightarrow> message list \<Rightarrow> peer \<Rightarrow> peer \<times> event list" where
  "forwardPeerA reg ts messages p =
     (if \<not> isWritable p \<or> \<not> anyMatch (topics p) ts then (p, [])
      else fold (forwardTopicA reg ts messages) (topics p) (p, []))"

fun forwardMessagesA :: "(topic \<times> hook list) list \<Rightarrow> (peerid \<times> peer) list \<Rightarrow> topic list \<Rightarrow> message list \<Rightarrow> (peerid \<times> peer) list \<times> event list" where
  "forwardMessagesA reg [] ts messages = ([], [])"
| "forwardMessagesA reg ((k, p) # ps) ts messages =
     (let (p', evs) = forwardPeerA reg ts messages p;
          (ps', evs') = forwardMessagesA reg ps ts messages
      in ((k, p') # ps', evs @ evs'))"

subsection \<open>The receive pipeline\<close>

text \<open>
  \<^verbatim>\<open>_processRpcMessages\<close>, \<^verbatim>\<open>_onRpc\<close>, \<^verbatim>\<open>publish\<close> and \<^verbatim>\<open>subscribe\<close> read the same in
  both forms of the engine; \<open>fwd\<close> is the \<^verbatim>\<open>_forwardMessages\<close> of the form.
  \<open>processRpcMessage\<close> is the body of the \<^verbatim>\<open>forEach\<close> of \<^verbatim>\<open>_processRpcMessages\<close>.
  Listeners are observers: what a listener does when \<^verbatim>\<open>emit\<close> calls it is outside
  the model.
\<close>

type_synonym 'h forwarder =
  "(topic \<times> 'h list) list \<Rightarrow> (peerid \<times> peer) list \<Rightarrow> topic list \<Rightarrow> message list
     \<Rightarrow> (peerid \<times> peer) list \<times> event list"

definition processRpcMessage :: "'h forwarder \<Rightarrow> 'h multicast \<Rightarrow> message \<Rightarrow> 'h multicast \<times> event list" where
  "processRpcMessage fwd st msg =
     (let sq = msgId (msg_from msg) (toString (seqno msg)) in
      if sq \<in> cache st then (st, [])
      else
        let st1 = st\<lparr>cache := insert sq (cache st)\<rparr>;
            evs = emitMessages (subscriptions st1) (topicIDs msg) [msg]
        in if hops msg = 0 then (st1, CachePut sq # evs @ [Log LogSkipHops])
           else
             let msg' = (if hops msg > 0 then msg\<lparr>hops := hops msg - 1\<rparr> else msg);
                 (ps, evs') = fwd (fwrdHooks st1) (peers st1) (topicIDs msg') [msg']
             in (st1\<lparr>peers := ps\<rparr>, CachePut sq # evs @ evs'))"

fun processRpcMessagesG :: "'h forwarder \<Rightarrow> 'h multicast \<Rightarrow> message list \<Rightarrow> 'h multicast \<times> event list" where
  "processRpcMessagesG fwd st [] = (st, [])"
| "processRpcMessagesG fwd st (msg # msgs) =
     (let (st1, evs) = processRpcMessage fwd st msg;
          (st2, evs') = processRpcMessagesG fwd st1 msgs
      in (st2, evs @ evs'))"

definition onRpcG :: "'h forwarder \<Rightarrow> 'h multicast \<Rightarrow> peerid \<Rightarrow> rpc option \<Rightarrow> 'h multicast \<times> event list" where
  "onRpcG fwd st idB58Str r =
     (case r of
        None \<Rightarrow> (st, [])
      | Some rp \<Rightarrow>
          let (st1, evs) =
                (case rpc_msgs rp of
                   None \<Rightarrow> (st, [])
                 | Some msgs \<Rightarrow>
                     if length msgs > 0
                     then processRpcMessagesG fwd st (normalizeInRpcMessages msgs)
                     else (st, []));
              st2 =
                (case rpc_subscriptions rp of
                   None \<Rightarrow> st1
                 | Some subs \<Rightarrow>
                     if length subs > 0 then
                       (case map_of (peers st1) idB58Str of
                          None \<Rightarrow> st1
                        | Some p \<Rightarrow>
                            st1\<lparr>peers := map_set (peers st1) idB58Str (updateSubscriptions p subs)\<rparr>)
                     else st1)
          in (st2, Log (LogRpcFrom idB58Str) # evs))"

text \<open>A run of the engine over the records that its peers deliver, in arrival order.\<close>

fun onRpcsG :: "'h forwarder \<Rightarrow> 'h multicast \<Rightarrow> (peerid \<times> rpc option) list \<Rightarrow> 'h multicast \<times> event list" where
  "onRpcsG fwd st [] = (st, [])"
| "onRpcsG fwd st ((k, r) # rs) =
     (let (st1, evs) = onRpcG fwd st k r;
          (st2, evs') = onRpcsG fwd st1 rs
      in (st2, evs @ evs'))"

subsection \<open>\<^verbatim>\<open>publish\<close>, \<^verbatim>\<open>subscribe\<close> and \<^verbatim>\<open>stop\<close>\<close>

text \<open>
  \<^verbatim>\<open>utils.randomSeqno\<close> draws from a random source: \<open>rng i\<close> is the value of the
  \<open>i\<close>-th draw of the call. \<open>buildMessages\<close> is \<^verbatim>\<open>messages.map(buildMessage)\<close>, which
  puts the identifier of each message into the cache as it builds it. The arguments
  \<^verbatim>\<open>topics\<close> and \<^verbatim>\<open>messages\<close> are the arrays that \<^verbatim>\<open>ensureArray\<close> returns.
\<close>

fun buildMessages :: "peerid \<Rightarrow> topic list \<Rightarrow> int \<Rightarrow> (nat \<Rightarrow> string) \<Rightarrow> nat \<Rightarrow> string list \<Rightarrow> msgid set \<Rightarrow> message list \<times> msgid set \<times> event list" where
  "buildMessages frm ts h rng i [] c = ([], c, [])"
| "buildMessages frm ts h rng i (msg # rest) c =
     (let sq = rng i;
          c1 = insert (msgId frm sq) c;
          m = \<lparr>msg_from = frm, data = msg, seqno = Buffer_from sq, hops = h, topicIDs = ts\<rparr>;
          (ms, c2, evs) = buildMessages frm ts h rng (Suc i) rest c1
      in (m # ms, c2, CachePut (msgId frm sq) # evs))"

definition publishG :: "'h forwarder \<Rightarrow> 'h multicast \<Rightarrow> topic list \<Rightarrow> string list \<Rightarrow> int \<Rightarrow> (nat \<Rightarrow> string) \<Rightarrow> error + 'h multicast \<times> event list" where
  "publishG fwd st ts messages h rng =
     (if \<not> started st then Inl (AssertionError ''Multicast is not started'')
      else
        let (msgObjects, c, evs0) = buildMessages (libp2p_peerId st) ts h rng 0 messages (cache st);
            st1 = st\<lparr>cache := c\<rparr>;
            evs1 = emitMessages (subscriptions st1) ts msgObjects;
            (ps, evs2) = fwd (fwrdHooks st1) (peers st1) ts msgObjects
        in Inr (st1\<lparr>peers := ps\<rparr>, Log (LogPublish ts messages) # evs0 @ evs1 @ evs2))"

text \<open>
  \<^verbatim>\<open>sendSubscriptionsOnceReady\<close>: a writable peer is sent the topics at once; for any
  other peer the code registers listeners that retry on the next \<^verbatim>\<open>connection\<close>.
\<close>

fun sendSubscriptionsOnceReady :: "topic list \<Rightarrow> (peerid \<times> peer) list \<Rightarrow> (peerid \<times> peer) list \<times> event list" where
  "sendSubscriptionsOnceReady ts [] = ([], [])"
| "sendSubscriptionsOnceReady ts ((k, p) # ps) =
     (let (p', evs) = (if isWritable p then sendSubscriptions p (JArray ts)
                       else (p, [OnConnection (info p)]));
          (ps', evs') = sendSubscriptionsOnceReady ts ps
      in ((k, p') # ps', evs @ evs'))"

definition subscribe :: "'h multicast \<Rightarrow> topic list \<Rightarrow> error + 'h multicast \<times> event list" where
  "subscribe st ts =
     (if \<not> started st then Inl (AssertionError ''Multicast is not started'')
      else
        let st1 = st\<lparr>subscriptions := fold (\<lambda>topic s. set_add s topic) ts (subscriptions st)\<rparr>;
            (ps, evs) = sendSubscriptionsOnceReady ts (peers st1)
        in Inr (st1\<lparr>peers := ps\<rparr>, evs))"

text \<open>
  \<^verbatim>\<open>stop\<close> calls \<^verbatim>\<open>super.stop\<close>, which is not among the sources: it is the parameter
  \<open>super_stop\<close>, a method of the base class on the state of the base class, which
  hands an error or nothing to its callback. The first component of the result of
  \<open>stop\<close> is what \<^verbatim>\<open>stop\<close> hands to its own callback.
\<close>

definition stop :: "(base \<Rightarrow> error option \<times> base) \<Rightarrow> 'h multicast \<Rightarrow> error option \<times> 'h multicast" where
  "stop super_stop st =
     (let (err, b) = super_stop (base.truncate st);
          st1 = st\<lparr>peers := peers b, started := started b, libp2p_peerId := libp2p_peerId b\<rparr>
      in case err of
           Some e \<Rightarrow> (Some e, st1)
         | None \<Rightarrow> (None, st1\<lparr>subscriptions := []\<rparr>))"

text \<open>The two forms of the engine.\<close>

definition processRpcMessages :: "validator multicast \<Rightarrow> message list \<Rightarrow> validator multicast \<times> event list" where
  "processRpcMessages = processRpcMessagesG forwardMessages"

definition processRpcMessagesA :: "hook multicast \<Rightarrow> message list \<Rightarrow> hook multicast \<times> event list" where
  "processRpcMessagesA = processRpcMessagesG forwardMessagesA"

definition onRpcs :: "validator multicast \<Rightarrow> (peerid \<times> rpc option) list \<Rightarrow> validator multicast \<times> event list" where
  "onRpcs = onRpcsG forwardMessages"

definition onRpcsA :: "hook multicast \<Rightarrow> (peerid \<times> rpc option) list \<Rightarrow> hook multicast \<times> event list" where
  "onRpcsA = onRpcsG forwardMessagesA"

definition publish :: "validator multicast \<Rightarrow> topic list \<Rightarrow> string list \<Rightarrow> int \<Rightarrow> (nat \<Rightarrow> string) \<Rightarrow> error + validator multicast \<times> event list" where
  "publish = publishG forwardMessages"

definition publishA :: "hook multicast \<Rightarrow> topic list \<Rightarrow> string list \<Rightarrow> int \<Rightarrow> (nat \<Rightarrow> string) \<Rightarrow> error + hook multicast \<times> event list" where
  "publishA = publishG forwardMessagesA"

section \<open>The facade\<close>

text \<open>
  The facade holds the engine, the listeners that \<^verbatim>\<open>multicast.on(topic, handler)\<close>
  registers on it, and the answer of \<^verbatim>\<open>node.isStarted()\<close>. A handler is a function
  object, kept by its identity. The \<^verbatim>\<open>options\<close> object may carry any property: the code
  reads \<^verbatim>\<open>frwdHooks\<close> and \<^verbatim>\<open>frwdHook\<close>, and an absent property is \<open>None\<close>. A call
  \<^verbatim>\<open>subscribe(topic, handler, callback)\<close>, without options, is \<open>None\<close> for the options.
\<close>

record facade =
  multicast :: "hook multicast"
  listeners :: "(topic \<times> nat list) list"
  node_isStarted :: bool

record options =
  frwdHooks :: "hook list option"
  frwdHook :: "hook list option"

text \<open>
  What a call of the facade does to its caller: it throws, or it returns after it has
  scheduled the callback with an error or without one.
\<close>

datatype outcome = Thrown error | CallbackError error | CallbackOk

definition listenerCount :: "facade \<Rightarrow> topic \<Rightarrow> nat" where
  "listenerCount f topic = (case map_of (listeners f) topic of None \<Rightarrow> 0 | Some hs \<Rightarrow> length hs)"

definition on :: "facade \<Rightarrow> topic \<Rightarrow> nat \<Rightarrow> facade" where
  "on f topic handler =
     f\<lparr>listeners := map_set (listeners f) topic
                      ((case map_of (listeners f) topic of None \<Rightarrow> [] | Some hs \<Rightarrow> hs) @ [handler])\<rparr>"

definition addFrwdHooks :: "facade \<Rightarrow> topic \<Rightarrow> hook list \<Rightarrow> facade" where
  "addFrwdHooks f topic hooks =
     f\<lparr>multicast := fold (\<lambda>h mc. addFrwdHook mc topic h) hooks (multicast f)\<rparr>"

definition facade_subscribe :: "facade \<Rightarrow> topic \<Rightarrow> options option \<Rightarrow> nat \<Rightarrow> facade \<times> event list \<times> outcome" where
  "facade_subscribe f topic opts handler =
     (let options = (case opts of None \<Rightarrow> \<lparr>frwdHooks = None, frwdHook = None\<rparr> | Some opt \<Rightarrow> opt) in
      if \<not> node_isStarted f \<and> \<not> started (multicast f)
      then (f, [], CallbackError (Error ''The libp2p node is not started yet''))
      else
        case (if listenerCount f topic = 0
              then subscribe (multicast f) [topic]
              else Inr (multicast f, [])) of
          Inl err \<Rightarrow> (f, [], Thrown err)
        | Inr (mc, evs) \<Rightarrow>
            let f1 = f\<lparr>multicast := mc\<rparr>;
                hooks = (case frwdHooks options of None \<Rightarrow> [] | Some hs \<Rightarrow> hs)
            in if length hooks > 0 then
                 (case frwdHook options of
                    None \<Rightarrow> (f1, evs, Thrown (TypeError ''Cannot read property forEach of undefined''))
                  | Some hs \<Rightarrow>
                      (on (f1\<lparr>multicast := fold (\<lambda>h mc. addFrwdHook mc topic h) hs mc\<rparr>) topic handler,
                       evs, CallbackOk))
               else (on f1 topic handler, evs, CallbackOk))"

section \<open>Reading a trace\<close>

text \<open>
  The record that \<^verbatim>\<open>sendMessages\<close> writes, the messages that a trace pushes to each peer,
  and the shape of the events of a forward to one peer: records of messages of the
  batch pushed to that peer, and log lines.
\<close>

definition rpc_of :: "message list \<Rightarrow> rpc" where
  "rpc_of ms = \<lparr>rpc_subscriptions = None, rpc_msgs = Some ms\<rparr>"

fun sent_by :: "event \<Rightarrow> (peerid \<times> message) list" where
  "sent_by (Push k r) = map (Pair k) (case rpc_msgs r of None \<Rightarrow> [] | Some l \<Rightarrow> l)"
| "sent_by e = []"

definition sent :: "event list \<Rightarrow> (peerid \<times> message) list" where
  "sent evs = concat (map sent_by evs)"

fun forward_event :: "peerid \<Rightarrow> message list \<Rightarrow> event \<Rightarrow> bool" where
  "forward_event pid ms (Push k r) =
     (k = pid \<and> (case rpc_msgs r of None \<Rightarrow> False | Some l \<Rightarrow> set l \<subseteq> set ms))"
| "forward_event pid ms (Log l) = True"
| "forward_event pid ms e = False"

text \<open>
  A message passes the synchronous validators of a list of topics when every validator
  registered for each of them returns a truthy value.
\<close>

definition valid_for :: "(topic \<times> validator list) list \<Rightarrow> peer \<Rightarrow> topic list \<Rightarrow> message \<Rightarrow> bool" where
  "valid_for reg p tps m =
     (\<forall>t \<in> set tps. \<forall>vs. map_of reg t = Some vs \<longrightarrow> (\<forall>v \<in> set vs. validate v p m))"

text \<open>
  The identifier that the receive pipeline computes for a message, the local emits of a
  trace that carry a given identifier, and its cache insertions of that identifier.
\<close>

definition idOf :: "message \<Rightarrow> msgid" where
  "idOf m = msgId (msg_from m) (toString (seqno m))"

fun emit_of :: "msgid \<Rightarrow> event \<Rightarrow> bool" where
  "emit_of i (Emit t m) = (idOf m = i)"
| "emit_of i e = False"

definition emits_of :: "msgid \<Rightarrow> event list \<Rightarrow> event list" where
  "emits_of i evs = filter (emit_of i) evs"

definition puts_of :: "msgid \<Rightarrow> event list \<Rightarrow> event list" where
  "puts_of i evs = filter (\<lambda>e. e = CachePut i) evs"

text \<open>The messages that a run of deliveries holds, in arrival order.\<close>

fun msgs_of :: "rpc option \<Rightarrow> message list" where
  "msgs_of None = []"
| "msgs_of (Some r) = (case rpc_msgs r of None \<Rightarrow> [] | Some ms \<Rightarrow> ms)"

definition delivered :: "(peerid \<times> rpc option) list \<Rightarrow> message list" where
  "delivered rs = concat (map (\<lambda>(k, r). msgs_of r) rs)"

text \<open>
  The local emits that a run owes to an identifier: none when the cache holds it at the
  start, otherwise those of the first delivered message that bears it.
\<close>

definition first_emits :: "msgid set \<Rightarrow> topic list \<Rightarrow> msgid \<Rightarrow> message list \<Rightarrow> event list" where
  "first_emits c subs i ms =
     (if i \<in> c then []
      else case find (\<lambda>m. idOf m = i) ms of
             None \<Rightarrow> []
           | Some m \<Rightarrow> emitMessages subs (topicIDs m) [m])"

text \<open>A forward procedure is quiet when its events are pushes of the batch and log lines.\<close>

definition quiet :: "'h forwarder \<Rightarrow> bool" where
  "quiet fwd = (\<forall>reg ps ts ms. \<forall>e \<in> set (snd (fwd reg ps ts ms)). \<exists>pid. forward_event pid ms e)"

section \<open>Scenarios\<close>

text \<open>
  Node A with two peers that announced the topic foo: B with a writable stream, C
  without one. A is subscribed to foo.
\<close>

definition peerB :: peer where
  "peerB = \<lparr>info = ''QmB'', topics = [''foo''], stream = Some [], references = 0\<rparr>"

definition peerC :: peer where
  "peerC = \<lparr>info = ''QmC'', topics = [''foo''], stream = None, references = 0\<rparr>"

definition nodeA :: "'h multicast" where
  "nodeA = \<lparr>peers = [(''QmB'', peerB), (''QmC'', peerC)], started = True, libp2p_peerId = ''QmA'',
            cache = {}, subscriptions = [''foo''], fwrdHooks = []\<rparr>"

text \<open>A message from a node Z on the topic foo, with two hops left.\<close>

definition msgZ :: message where
  "msgZ = \<lparr>msg_from = ''QmZ'', data = ''hello'', seqno = ''s1'', hops = 2, topicIDs = [''foo'']\<rparr>"

text \<open>
  A writable peer D that announced foo and bar, a message addressed to both topics, a
  message whose payload a hook refuses to judge, a validator that rejects every message,
  and hooks that fail on every message, reject every message, approve every message,
  and fail on the payload bad only.
\<close>

definition peerD :: peer where
  "peerD = \<lparr>info = ''QmD'', topics = [''foo'', ''bar''], stream = Some [], references = 0\<rparr>"

definition msgFB :: message where
  "msgFB = \<lparr>msg_from = ''QmZ'', data = ''hello'', seqno = ''s2'', hops = 1, topicIDs = [''foo'', ''bar'']\<rparr>"

definition msgBad :: message where
  "msgBad = \<lparr>msg_from = ''QmZ'', data = ''bad'', seqno = ''s3'', hops = 2, topicIDs = [''foo'']\<rparr>"

definition rejectAll :: validator where
  "rejectAll = Validator 1 (\<lambda>p m. False)"

definition failAll :: hook where
  "failAll = Hook 1 (\<lambda>p m. Fail (Error ''boom''))"

definition rejectHook :: hook where
  "rejectHook = Hook 4 (\<lambda>p m. Reject)"

definition approveAll :: hook where
  "approveAll = Hook 2 (\<lambda>p m. Approve)"

definition failBad :: hook where
  "failBad = Hook 3 (\<lambda>p m. if data m = ''bad'' then Fail (Error ''boom'') else Approve)"

text \<open>A started facade over node A, without listeners or local subscriptions.\<close>

definition facadeA :: facade where
  "facadeA = \<lparr>multicast = nodeA\<lparr>subscriptions := []\<rparr>, listeners = [], node_isStarted = True\<rparr>"

text \<open>A base class whose \<^verbatim>\<open>stop\<close> drops every peer and clears the \<^verbatim>\<open>started\<close> flag.\<close>

definition super_stop_ok :: "base \<Rightarrow> error option \<times> base" where
  "super_stop_ok b = (None, b\<lparr>peers := [], started := False\<rparr>)"

section \<open>Properties of the peer record\<close>

lemma sendMessages_writable:
  "stream p = Some q \<Longrightarrow>
     sendMessages p ms = (p\<lparr>stream := Some (q @ [rpc_of ms])\<rparr>, [Push (info p) (rpc_of ms)])"
  by (simp add: sendMessages_def peer_write_def rpc_of_def)

lemma sendMessages_unwritable: "stream p = None \<Longrightarrow> sendMessages p ms = (p, [])"
  by (simp add: sendMessages_def peer_write_def)

lemma rpc_msgs_rpc_of [simp]: "rpc_msgs (rpc_of l) = Some l"
  by (simp add: rpc_of_def)

text \<open>
  C10. When the peer record has no writable stream, \<^verbatim>\<open>write\<close> returns without a
  change to the record (stream, topics, info and references); the failure reaches the
  callback and nothing else, and without a callback it leaves no trace. The model has
  no exception for \<^verbatim>\<open>write\<close> to raise: its body has no \<^verbatim>\<open>throw\<close>.
\<close>

theorem write_without_stream:
  "stream p = None \<Longrightarrow>
     peer_write p msg None = (p, []) \<and>
     peer_write p msg (Some cb) =
       (p, [Called cb (Some (Error (''No writable connection to '' @ info p)))])"
  by (simp add: peer_write_def)

theorem write_without_stream_witness:
  "stream peerC = None \<and>
   peer_write peerC \<lparr>rpc_subscriptions = None, rpc_msgs = Some []\<rparr> None = (peerC, []) \<and>
   peer_write peerC \<lparr>rpc_subscriptions = None, rpc_msgs = Some []\<rparr> (Some 1) =
     (peerC, [Called 1 (Some (Error ''No writable connection to QmC''))])"
proof -
  have h: "stream peerC = None" by (simp add: peerC_def)
  from write_without_stream [OF h, of "\<lparr>rpc_subscriptions = None, rpc_msgs = Some []\<rparr>" 1]
  show ?thesis using h by (simp add: peerC_def)
qed

text \<open>
  C7, as the spec states it, fails twice: on a writable peer \<^verbatim>\<open>sendMessages\<close> with the
  empty list pushes a record whose \<^verbatim>\<open>msgs\<close> is empty, and on a peer without a writable
  stream \<^verbatim>\<open>sendSubscriptions\<close> with one topic emits no record.
\<close>

theorem sendMessages_empty_counterexample:
  "sendMessages peerB [] =
     (peerB\<lparr>stream := Some [\<lparr>rpc_subscriptions = None, rpc_msgs = Some []\<rparr>]\<rparr>,
      [Push ''QmB'' \<lparr>rpc_subscriptions = None, rpc_msgs = Some []\<rparr>]) \<and>
   sendMessages peerB [] \<noteq> (peerB, []) \<and>
   sendSubscriptions peerC (JArray [''foo'']) = (peerC, [])"
  by (simp add: sendMessages_def sendSubscriptions_def sendRawSubscriptions_def peer_write_def
        peerB_def peerC_def)

text \<open>
  C7, amended. On a peer with a writable stream, \<^verbatim>\<open>sendSubscriptions\<close> and
  \<^verbatim>\<open>sendUnsubscriptions\<close> with one topic or more push exactly one record, with one
  entry per topic, in order, and the flag true or false; with an empty \<^verbatim>\<open>Set\<close> they do
  nothing; \<^verbatim>\<open>sendMessages\<close> pushes exactly one record that holds its input, whatever the
  input. On a peer without a writable stream the three do nothing.
\<close>

theorem send_records:
  "(stream p = Some q \<longrightarrow>
      (elems c \<noteq> [] \<longrightarrow>
         sendSubscriptions p c =
           (p\<lparr>stream := Some (q @ [\<lparr>rpc_subscriptions =
                 Some (map (\<lambda>t. \<lparr>so_subscribe = True, topicCID = t\<rparr>) (elems c)), rpc_msgs = None\<rparr>])\<rparr>,
            [Push (info p) \<lparr>rpc_subscriptions =
                 Some (map (\<lambda>t. \<lparr>so_subscribe = True, topicCID = t\<rparr>) (elems c)), rpc_msgs = None\<rparr>]) \<and>
         sendUnsubscriptions p c =
           (p\<lparr>stream := Some (q @ [\<lparr>rpc_subscriptions =
                 Some (map (\<lambda>t. \<lparr>so_subscribe = False, topicCID = t\<rparr>) (elems c)), rpc_msgs = None\<rparr>])\<rparr>,
            [Push (info p) \<lparr>rpc_subscriptions =
                 Some (map (\<lambda>t. \<lparr>so_subscribe = False, topicCID = t\<rparr>) (elems c)), rpc_msgs = None\<rparr>])) \<and>
      sendSubscriptions p (JSet []) = (p, []) \<and>
      sendUnsubscriptions p (JSet []) = (p, []) \<and>
      sendMessages p ms =
        (p\<lparr>stream := Some (q @ [\<lparr>rpc_subscriptions = None, rpc_msgs = Some ms\<rparr>])\<rparr>,
         [Push (info p) \<lparr>rpc_subscriptions = None, rpc_msgs = Some ms\<rparr>])) \<and>
   (stream p = None \<longrightarrow>
      sendSubscriptions p c = (p, []) \<and> sendUnsubscriptions p c = (p, []) \<and>
      sendMessages p ms = (p, []))"
  by (cases c)
     (auto simp: sendSubscriptions_def sendUnsubscriptions_def sendRawSubscriptions_def
        sendMessages_def peer_write_def)

theorem send_records_witness:
  "stream peerB = Some [] \<and> elems (JArray [''foo'', ''bar'']) \<noteq> [] \<and>
   sendSubscriptions peerB (JArray [''foo'', ''bar'']) =
     (peerB\<lparr>stream := Some [\<lparr>rpc_subscriptions =
         Some [\<lparr>so_subscribe = True, topicCID = ''foo''\<rparr>, \<lparr>so_subscribe = True, topicCID = ''bar''\<rparr>],
         rpc_msgs = None\<rparr>]\<rparr>,
      [Push ''QmB'' \<lparr>rpc_subscriptions =
         Some [\<lparr>so_subscribe = True, topicCID = ''foo''\<rparr>, \<lparr>so_subscribe = True, topicCID = ''bar''\<rparr>],
         rpc_msgs = None\<rparr>]) \<and>
   stream peerC = None \<and> sendMessages peerC [] = (peerC, [])"
proof -
  have b: "stream peerB = Some []" by (simp add: peerB_def)
  have c: "stream peerC = None" by (simp add: peerC_def)
  have e: "elems (JArray [''foo'', ''bar'']) \<noteq> []" by simp
  from send_records [of peerB "[]" "JArray [''foo'', ''bar'']" "[]"] b e
  have 1: "sendSubscriptions peerB (JArray [''foo'', ''bar'']) =
     (peerB\<lparr>stream := Some [\<lparr>rpc_subscriptions =
         Some [\<lparr>so_subscribe = True, topicCID = ''foo''\<rparr>, \<lparr>so_subscribe = True, topicCID = ''bar''\<rparr>],
         rpc_msgs = None\<rparr>]\<rparr>,
      [Push ''QmB'' \<lparr>rpc_subscriptions =
         Some [\<lparr>so_subscribe = True, topicCID = ''foo''\<rparr>, \<lparr>so_subscribe = True, topicCID = ''bar''\<rparr>],
         rpc_msgs = None\<rparr>])"
    by (simp add: peerB_def)
  from send_records [of peerC "[]" "JSet []" "[]"] c
  have 2: "sendMessages peerC [] = (peerC, [])" by simp
  show ?thesis using b c e 1 2 by simp
qed

section \<open>Properties of the engine\<close>

text \<open>
  C8. \<^verbatim>\<open>stop\<close> leaves the cache and the registry of forwarding validators as they
  were, and once it has completed, that is once the base class has stopped and
  \<^verbatim>\<open>stop\<close> hands no error to its callback, the local subscriptions are empty.
\<close>

theorem stop_resets_subscriptions:
  "cache (snd (stop super_stop st)) = cache st \<and>
   fwrdHooks (snd (stop super_stop st)) = fwrdHooks st \<and>
   (fst (stop super_stop st) = None \<longrightarrow> subscriptions (snd (stop super_stop st)) = [])"
  by (auto simp: stop_def Let_def split: prod.splits option.splits)

theorem stop_resets_subscriptions_witness:
  "fst (stop super_stop_ok (nodeA\<lparr>cache := {''QmZs1''}, fwrdHooks := [(''foo'', [Hook 1 (\<lambda>p m. Reject)])]\<rparr>)) = None \<and>
   subscriptions (nodeA :: hook multicast) = [''foo''] \<and>
   subscriptions (snd (stop super_stop_ok (nodeA\<lparr>cache := {''QmZs1''}, fwrdHooks := [(''foo'', [Hook 1 (\<lambda>p m. Reject)])]\<rparr>))) = [] \<and>
   cache (snd (stop super_stop_ok (nodeA\<lparr>cache := {''QmZs1''}, fwrdHooks := [(''foo'', [Hook 1 (\<lambda>p m. Reject)])]\<rparr>))) = {''QmZs1''} \<and>
   fwrdHooks (snd (stop super_stop_ok (nodeA\<lparr>cache := {''QmZs1''}, fwrdHooks := [(''foo'', [Hook 1 (\<lambda>p m. Reject)])]\<rparr>))) =
     [(''foo'', [Hook 1 (\<lambda>p m. Reject)])]"
proof -
  have h: "fst (stop super_stop_ok (nodeA\<lparr>cache := {''QmZs1''}, fwrdHooks := [(''foo'', [Hook 1 (\<lambda>p m. Reject)])]\<rparr>)) = None"
    by (simp add: stop_def super_stop_ok_def Let_def base.truncate_def nodeA_def)
  from stop_resets_subscriptions [of super_stop_ok "nodeA\<lparr>cache := {''QmZs1''}, fwrdHooks := [(''foo'', [Hook 1 (\<lambda>p m. Reject)])]\<rparr>"] h
  show ?thesis by (simp add: nodeA_def)
qed

section \<open>Properties of the forward procedure\<close>

lemma anyMatch_iff: "anyMatch a b \<longleftrightarrow> set a \<inter> set b \<noteq> {}"
  by (auto simp: anyMatch_def list_ex_iff)

lemma forwardMessages_map:
  "forwardMessages reg ps ts ms =
     (map (\<lambda>(k, p). (k, fst (forwardPeer reg ts ms p))) ps,
      concat (map (\<lambda>(k, p). snd (forwardPeer reg ts ms p)) ps))"
  by (induction ps) (auto split: prod.splits)

lemma forwardMessagesA_map:
  "forwardMessagesA reg ps ts ms =
     (map (\<lambda>(k, p). (k, fst (forwardPeerA reg ts ms p))) ps,
      concat (map (\<lambda>(k, p). snd (forwardPeerA reg ts ms p)) ps))"
  by (induction ps) (auto split: prod.splits)

lemma forwardPeer_skip:
  "\<not> isWritable p \<or> set (topics p) \<inter> set ts = {} \<Longrightarrow> forwardPeer reg ts ms p = (p, [])"
  by (auto simp: forwardPeer_def anyMatch_iff)

lemma forwardPeerA_skip:
  "\<not> isWritable p \<or> set (topics p) \<inter> set ts = {} \<Longrightarrow> forwardPeerA reg ts ms p = (p, [])"
  by (auto simp: forwardPeerA_def anyMatch_iff)

subsection \<open>The form with synchronous validators\<close>

lemma filterValid_filter:
  "filterValid reg p t ms = filter (valid_for reg p [t]) ms"
  by (auto simp: filterValid_def valid_for_def list_all_iff split: option.splits intro: filter_cong)

lemma fold_filterValid:
  "fold (filterValid reg p) tps ms = filter (valid_for reg p tps) ms"
proof (induction tps arbitrary: ms)
  case Nil
  show ?case by (simp add: valid_for_def)
next
  case (Cons t tps)
  have "fold (filterValid reg p) (t # tps) ms = filter (valid_for reg p tps) (filter (valid_for reg p [t]) ms)"
    by (simp add: Cons.IH filterValid_filter)
  also have "\<dots> = filter (valid_for reg p (t # tps)) ms"
    by (auto simp: valid_for_def intro: filter_cong)
  finally show ?case .
qed

lemma forwardPeer_eligible:
  assumes "stream p = Some q" and "set (topics p) \<inter> set ts \<noteq> {}"
  shows "forwardPeer reg ts ms p =
           (p\<lparr>stream := Some (q @ [rpc_of (filter (valid_for reg p (topics p)) ms)])\<rparr>,
            [Push (info p) (rpc_of (filter (valid_for reg p (topics p)) ms)),
             Log (LogPublishMsgs ts (info p))])"
  using assms
  by (simp add: forwardPeer_def isWritable_def anyMatch_iff fold_filterValid
      normalizeOutRpcMessages_def sendMessages_writable Let_def)

lemma forwardPeer_events:
  assumes "e \<in> set (snd (forwardPeer reg ts ms p))"
  shows "forward_event (info p) ms e \<and> isWritable p \<and> set (topics p) \<inter> set ts \<noteq> {}"
proof (cases "isWritable p \<and> set (topics p) \<inter> set ts \<noteq> {}")
  case True
  then obtain q where q: "stream p = Some q" by (auto simp: isWritable_def)
  from True q assms forwardPeer_eligible [of p q ts reg ms]
  show ?thesis by auto
next
  case False
  with assms forwardPeer_skip [of p ts reg ms] show ?thesis by auto
qed

subsection \<open>The form with callback hooks\<close>

lemma every_True: "every hs p m = Inr True \<longleftrightarrow> (\<forall>h \<in> set hs. run_hook h p m = Approve)"
  by (induction hs) (auto split: verdict.splits)

lemma filter_async_ok:
  "(\<forall>x \<in> set xs. \<exists>b. f x = Inr b) \<Longrightarrow> filter_async f xs = Inr (filter (\<lambda>x. f x = Inr True) xs)"
  by (induction xs) auto

lemma filter_async_Inr_D:
  "filter_async f xs = Inr r \<Longrightarrow> (\<forall>x \<in> set xs. \<exists>b. f x = Inr b)"
  by (induction xs arbitrary: r) (auto split: sum.splits)

lemma filter_async_Inr:
  "filter_async f xs = Inr r \<longleftrightarrow> (\<forall>x \<in> set xs. \<exists>b. f x = Inr b) \<and> r = filter (\<lambda>x. f x = Inr True) xs"
  using filter_async_ok [of xs f] filter_async_Inr_D [of f xs r] by auto

lemma filter_async_Inl:
  "filter_async f xs = Inl e \<Longrightarrow> \<exists>x \<in> set xs. f x = Inl e"
  by (induction xs) (auto split: sum.splits)

lemma forwardTopicA_step:
  assumes "forwardTopicA reg ts ms t (p, evs) = (p', evs')"
  shows "\<exists>new. evs' = evs @ new \<and> (\<forall>e \<in> set new. forward_event (info p) ms e) \<and>
           p' = p\<lparr>stream := stream p'\<rparr> \<and> (isWritable p \<longleftrightarrow> isWritable p')"
proof (cases "stream p")
  case None
  with assms show ?thesis
    by (auto simp: forwardTopicA_def sendMessages_unwritable isWritable_def
        split: option.splits sum.splits if_splits)
next
  case (Some q)
  with assms show ?thesis
    by (auto simp: forwardTopicA_def sendMessages_writable isWritable_def normalizeOutRpcMessages_def
        filter_async_Inr split: option.splits sum.splits if_splits)
qed

lemma forwardTopicA_fold:
  "fold (forwardTopicA reg ts ms) tps (p, evs) = (p', evs') \<Longrightarrow>
     \<exists>new. evs' = evs @ new \<and> (\<forall>e \<in> set new. forward_event (info p) ms e) \<and>
           p' = p\<lparr>stream := stream p'\<rparr> \<and> (isWritable p \<longleftrightarrow> isWritable p')"
proof (induction tps arbitrary: p evs)
  case Nil
  then show ?case by auto
next
  case (Cons t tps)
  obtain p1 e1 where s: "forwardTopicA reg ts ms t (p, evs) = (p1, e1)" by fastforce
  from forwardTopicA_step [OF s] obtain n1 where
    1: "e1 = evs @ n1" "\<forall>e \<in> set n1. forward_event (info p) ms e" "p1 = p\<lparr>stream := stream p1\<rparr>"
       "isWritable p \<longleftrightarrow> isWritable p1" by blast
  from Cons.prems s have "fold (forwardTopicA reg ts ms) tps (p1, e1) = (p', evs')" by simp
  from Cons.IH [OF this] obtain n2 where
    2: "evs' = e1 @ n2" "\<forall>e \<in> set n2. forward_event (info p1) ms e" "p' = p1\<lparr>stream := stream p'\<rparr>"
       "isWritable p1 \<longleftrightarrow> isWritable p'" by blast
  have i: "info p1 = info p" by (subst 1(3)) simp
  have "p' = p\<lparr>stream := stream p'\<rparr>" by (subst 2(3), subst 1(3)) simp
  with 1 2 i show ?case by auto
qed

lemma forwardPeerA_events:
  assumes "e \<in> set (snd (forwardPeerA reg ts ms p))"
  shows "forward_event (info p) ms e \<and> isWritable p \<and> set (topics p) \<inter> set ts \<noteq> {}"
proof (cases "isWritable p \<and> set (topics p) \<inter> set ts \<noteq> {}")
  case True
  obtain p' evs' where f: "fold (forwardTopicA reg ts ms) (topics p) (p, []) = (p', evs')" by fastforce
  from True f have "forwardPeerA reg ts ms p = (p', evs')" by (auto simp: forwardPeerA_def anyMatch_iff)
  with forwardTopicA_fold [OF f] assms True show ?thesis by auto
next
  case False
  with assms forwardPeerA_skip [of p ts reg ms] show ?thesis by auto
qed



text \<open>
  C6. In both forms of the forward procedure, a peer of the peer map that is not
  writable, or whose topics are disjoint from the forwarded topics, is left as it is:
  the body of the loop does nothing for it, its entry in the map is unchanged, and, the
  peers of the map having distinct identifiers, the trace holds no record pushed to it.
\<close>

theorem forward_skips_peer:
  assumes "i < length ps" and "ps ! i = (k, q)"
    and "\<not> isWritable q \<or> set (topics q) \<inter> set ts = {}"
  shows "forwardPeer reg ts ms q = (q, []) \<and> forwardPeerA regA ts ms q = (q, []) \<and>
         fst (forwardMessages reg ps ts ms) ! i = (k, q) \<and>
         fst (forwardMessagesA regA ps ts ms) ! i = (k, q) \<and>
         (distinct (map (info \<circ> snd) ps) \<longrightarrow>
            (\<forall>r. Push (info q) r \<notin> set (snd (forwardMessages reg ps ts ms)) \<and>
                 Push (info q) r \<notin> set (snd (forwardMessagesA regA ps ts ms))))"
proof -
  have s1: "forwardPeer reg ts ms q = (q, [])" using assms(3) by (rule forwardPeer_skip)
  have s2: "forwardPeerA regA ts ms q = (q, [])" using assms(3) by (rule forwardPeerA_skip)
  have n1: "fst (forwardMessages reg ps ts ms) ! i = (k, q)"
    using assms(1,2) s1 by (simp add: forwardMessages_map)
  have n2: "fst (forwardMessagesA regA ps ts ms) ! i = (k, q)"
    using assms(1,2) s2 by (simp add: forwardMessagesA_map)
  have mem: "(k, q) \<in> set ps" using assms(1,2) by (metis nth_mem)
  have d: "Push (info q) r \<notin> set (snd (forwardMessages reg ps ts ms)) \<and>
           Push (info q) r \<notin> set (snd (forwardMessagesA regA ps ts ms))"
    if dist: "distinct (map (info \<circ> snd) ps)" for r
  proof -
    have inj: "inj_on (info \<circ> snd) (set ps)" using dist by (simp add: distinct_map)
    have same: "p' = q" if "(k', p') \<in> set ps" and "info p' = info q" for k' p'
    proof -
      have "(info \<circ> snd) (k', p') = (info \<circ> snd) (k, q)" using that(2) by simp
      from inj_onD [OF inj this that(1) mem] have "(k', p') = (k, q)" .
      then show ?thesis by simp
    qed
    have a: False if "Push (info q) r \<in> set (snd (forwardMessages reg ps ts ms))"
    proof -
      from that obtain k' p' where kp: "(k', p') \<in> set ps"
        and e: "Push (info q) r \<in> set (snd (forwardPeer reg ts ms p'))"
        by (auto simp: forwardMessages_map)
      from forwardPeer_events [OF e] have "info p' = info q" "isWritable p'" "set (topics p') \<inter> set ts \<noteq> {}"
        by auto
      with same [OF kp] assms(3) show False by auto
    qed
    have b: False if "Push (info q) r \<in> set (snd (forwardMessagesA regA ps ts ms))"
    proof -
      from that obtain k' p' where kp: "(k', p') \<in> set ps"
        and e: "Push (info q) r \<in> set (snd (forwardPeerA regA ts ms p'))"
        by (auto simp: forwardMessagesA_map)
      from forwardPeerA_events [OF e] have "info p' = info q" "isWritable p'" "set (topics p') \<inter> set ts \<noteq> {}"
        by auto
      with same [OF kp] assms(3) show False by auto
    qed
    from a b show ?thesis by blast
  qed
  from s1 s2 n1 n2 d show ?thesis by blast
qed

theorem forward_skips_peer_witness:
  "(1::nat) < length [(''QmB'', peerB), (''QmC'', peerC)] \<and>
   [(''QmB'', peerB), (''QmC'', peerC)] ! 1 = (''QmC'', peerC) \<and>
   \<not> isWritable peerC \<and>
   distinct (map (info \<circ> snd) [(''QmB'', peerB), (''QmC'', peerC)]) \<and>
   fst (forwardMessages [] [(''QmB'', peerB), (''QmC'', peerC)] [''foo''] [msgZ]) ! 1 = (''QmC'', peerC) \<and>
   fst (forwardMessagesA [] [(''QmB'', peerB), (''QmC'', peerC)] [''foo''] [msgZ]) ! 1 = (''QmC'', peerC) \<and>
   (\<forall>r. Push ''QmC'' r \<notin> set (snd (forwardMessages [] [(''QmB'', peerB), (''QmC'', peerC)] [''foo''] [msgZ])) \<and>
        Push ''QmC'' r \<notin> set (snd (forwardMessagesA [] [(''QmB'', peerB), (''QmC'', peerC)] [''foo''] [msgZ])))"
proof -
  have 1: "(1::nat) < length [(''QmB'', peerB), (''QmC'', peerC)]" by simp
  have 2: "[(''QmB'', peerB), (''QmC'', peerC)] ! 1 = (''QmC'', peerC)" by simp
  have 3: "\<not> isWritable peerC" by (simp add: isWritable_def peerC_def)
  then have c: "\<not> isWritable peerC \<or> set (topics peerC) \<inter> set [''foo''] = {}" by simp
  have 4: "distinct (map (info \<circ> snd) [(''QmB'', peerB), (''QmC'', peerC)])"
    by (simp add: peerB_def peerC_def)
  have 5: "info peerC = ''QmC''" by (simp add: peerC_def)
  from forward_skips_peer [OF 1 2 c, of "[]" "[msgZ]" "[]"] 1 2 3 4 5
  show ?thesis by (simp del: forwardMessages.simps forwardMessagesA.simps)
qed

section \<open>Properties of the receive pipeline\<close>

lemma quiet_forwardMessages: "quiet forwardMessages"
  unfolding quiet_def
proof (intro allI ballI)
  fix reg ps ts ms e
  assume "e \<in> set (snd (forwardMessages reg ps ts ms))"
  then obtain k p where "e \<in> set (snd (forwardPeer reg ts ms p))"
    by (auto simp: forwardMessages_map)
  from forwardPeer_events [OF this] show "\<exists>pid. forward_event pid ms e" by blast
qed

lemma quiet_forwardMessagesA: "quiet forwardMessagesA"
  unfolding quiet_def
proof (intro allI ballI)
  fix reg ps ts ms e
  assume "e \<in> set (snd (forwardMessagesA reg ps ts ms))"
  then obtain k p where "e \<in> set (snd (forwardPeerA reg ts ms p))"
    by (auto simp: forwardMessagesA_map)
  from forwardPeerA_events [OF this] show "\<exists>pid. forward_event pid ms e" by blast
qed

lemma emits_of_append [simp]: "emits_of i (a @ b) = emits_of i a @ emits_of i b"
  by (simp add: emits_of_def)

lemma emits_of_Cons_CachePut [simp]: "emits_of i (CachePut j # a) = emits_of i a"
  by (simp add: emits_of_def)

lemma emits_of_Cons_Log [simp]: "emits_of i (Log l # a) = emits_of i a"
  by (simp add: emits_of_def)

lemma emits_of_Nil [simp]: "emits_of i [] = []"
  by (simp add: emits_of_def)

lemma emitMessages_single:
  "emitMessages subs ts [m] = map (\<lambda>t. Emit t m) (filter (\<lambda>t. t \<in> set subs) ts)"
  by (induction ts) (auto simp: emitMessages_def)

lemma emits_of_emitMessages:
  "emits_of i (emitMessages subs ts [m]) = (if idOf m = i then emitMessages subs ts [m] else [])"
  by (auto simp: emits_of_def emitMessages_single filter_map comp_def)

lemma emits_of_forward:
  "quiet fwd \<Longrightarrow> emits_of i (snd (fwd reg ps ts ms)) = []"
proof -
  assume q: "quiet fwd"
  have "\<not> emit_of i e" if "e \<in> set (snd (fwd reg ps ts ms))" for e
  proof -
    from q that obtain pid where "forward_event pid ms e" unfolding quiet_def by blast
    then show ?thesis by (cases e) auto
  qed
  then show ?thesis by (simp add: emits_of_def)
qed

lemma processRpcMessage_cached:
  "idOf m \<in> cache st \<Longrightarrow> processRpcMessage fwd st m = (st, [])"
  by (simp add: processRpcMessage_def idOf_def)

lemma processRpcMessage_fresh:
  assumes "idOf m \<notin> cache st"
  shows "processRpcMessage fwd st m =
    (if hops m = 0
     then (st\<lparr>cache := insert (idOf m) (cache st)\<rparr>,
           CachePut (idOf m) # emitMessages (subscriptions st) (topicIDs m) [m] @ [Log LogSkipHops])
     else (st\<lparr>cache := insert (idOf m) (cache st),
              peers := fst (fwd (fwrdHooks st) (peers st) (topicIDs m)
                         [m\<lparr>hops := (if hops m > 0 then hops m - 1 else hops m)\<rparr>])\<rparr>,
           CachePut (idOf m) # emitMessages (subscriptions st) (topicIDs m) [m] @
             snd (fwd (fwrdHooks st) (peers st) (topicIDs m)
                    [m\<lparr>hops := (if hops m > 0 then hops m - 1 else hops m)\<rparr>])))"
  using assms
  by (auto simp: processRpcMessage_def idOf_def Let_def split: prod.splits)

lemma processRpcMessage_cache:
  "cache (fst (processRpcMessage fwd st m)) = insert (idOf m) (cache st)"
  by (cases "idOf m \<in> cache st")
     (auto simp: processRpcMessage_cached processRpcMessage_fresh)

lemma processRpcMessage_subscriptions:
  "subscriptions (fst (processRpcMessage fwd st m)) = subscriptions st"
  by (cases "idOf m \<in> cache st")
     (auto simp: processRpcMessage_cached processRpcMessage_fresh)

lemma processRpcMessage_emits:
  "quiet fwd \<Longrightarrow>
     emits_of i (snd (processRpcMessage fwd st m)) =
       (if idOf m = i \<and> i \<notin> cache st
        then emitMessages (subscriptions st) (topicIDs m) [m] else [])"
  by (cases "idOf m \<in> cache st")
     (auto simp: processRpcMessage_cached processRpcMessage_fresh emits_of_emitMessages emits_of_forward)

lemma processRpcMessagesG_Cons:
  "processRpcMessagesG fwd st (m # ms) =
     (fst (processRpcMessagesG fwd (fst (processRpcMessage fwd st m)) ms),
      snd (processRpcMessage fwd st m) @ snd (processRpcMessagesG fwd (fst (processRpcMessage fwd st m)) ms))"
  by (simp add: split_beta)

lemma processRpcMessagesG_cache:
  "cache (fst (processRpcMessagesG fwd st ms)) = cache st \<union> idOf ` set ms"
  by (induction ms arbitrary: st)
     (auto simp: processRpcMessage_cache processRpcMessagesG_Cons simp del: processRpcMessagesG.simps(2))

lemma processRpcMessagesG_subscriptions:
  "subscriptions (fst (processRpcMessagesG fwd st ms)) = subscriptions st"
  by (induction ms arbitrary: st)
     (auto simp: processRpcMessage_subscriptions processRpcMessagesG_Cons simp del: processRpcMessagesG.simps(2))

lemma processRpcMessagesG_emits:
  "quiet fwd \<Longrightarrow>
     emits_of i (snd (processRpcMessagesG fwd st ms)) = first_emits (cache st) (subscriptions st) i ms"
proof (induction ms arbitrary: st)
  case Nil
  then show ?case by (simp add: first_emits_def)
next
  case (Cons m ms)
  let ?st1 = "fst (processRpcMessage fwd st m)"
  have c: "cache ?st1 = insert (idOf m) (cache st)" by (rule processRpcMessage_cache)
  have s: "subscriptions ?st1 = subscriptions st" by (rule processRpcMessage_subscriptions)
  have "emits_of i (snd (processRpcMessagesG fwd st (m # ms))) =
          emits_of i (snd (processRpcMessage fwd st m)) @ first_emits (cache ?st1) (subscriptions ?st1) i ms"
    using Cons.IH [OF Cons.prems, of ?st1] by (simp add: processRpcMessagesG_Cons del: processRpcMessagesG.simps(2))
  also have "\<dots> = first_emits (cache st) (subscriptions st) i (m # ms)"
    using Cons.prems by (auto simp: c s processRpcMessage_emits first_emits_def)
  finally show ?case .
qed

lemma onRpcG_cache:
  "cache (fst (onRpcG fwd st k r)) = cache st \<union> idOf ` set (msgs_of r)"
  by (cases r)
     (auto simp: onRpcG_def Let_def split_beta processRpcMessagesG_cache normalizeInRpcMessages_def
        split: option.splits)

lemma onRpcG_subscriptions:
  "subscriptions (fst (onRpcG fwd st k r)) = subscriptions st"
  by (cases r)
     (auto simp: onRpcG_def Let_def split_beta processRpcMessagesG_subscriptions split: option.splits)

lemma onRpcG_emits:
  "quiet fwd \<Longrightarrow>
     emits_of i (snd (onRpcG fwd st k r)) = first_emits (cache st) (subscriptions st) i (msgs_of r)"
  by (cases r)
     (auto simp: onRpcG_def Let_def split_beta processRpcMessagesG_emits normalizeInRpcMessages_def
        first_emits_def split: option.splits)

lemma onRpcsG_Cons:
  "onRpcsG fwd st ((k, r) # rs) =
     (fst (onRpcsG fwd (fst (onRpcG fwd st k r)) rs),
      snd (onRpcG fwd st k r) @ snd (onRpcsG fwd (fst (onRpcG fwd st k r)) rs))"
  by (simp add: split_beta)

lemma first_emits_append:
  "first_emits c subs i (a @ b) = first_emits c subs i a @ first_emits (c \<union> idOf ` set a) subs i b"
  by (induction a) (auto simp: first_emits_def split: option.splits)

lemma onRpcsG_emits:
  "quiet fwd \<Longrightarrow>
     emits_of i (snd (onRpcsG fwd st rs)) = first_emits (cache st) (subscriptions st) i (delivered rs)"
proof (induction rs arbitrary: st)
  case Nil
  then show ?case by (simp add: first_emits_def delivered_def)
next
  case (Cons kr rs)
  obtain k r where kr: "kr = (k, r)" by (cases kr)
  let ?st1 = "fst (onRpcG fwd st k r)"
  have d: "delivered ((k, r) # rs) = msgs_of r @ delivered rs" by (simp add: delivered_def)
  show ?case
    using Cons.IH [OF Cons.prems, of ?st1] Cons.prems
    by (simp add: kr onRpcsG_Cons d first_emits_append onRpcG_emits onRpcG_cache onRpcG_subscriptions
          del: onRpcsG.simps(2))
qed

lemma puts_of_append [simp]: "puts_of i (a @ b) = puts_of i a @ puts_of i b"
  by (simp add: puts_of_def)

lemma puts_of_simps [simp]:
  "puts_of i [] = []"
  "puts_of i (CachePut j # a) = (if j = i then CachePut i # puts_of i a else puts_of i a)"
  "puts_of i (Log l # a) = puts_of i a"
  by (auto simp: puts_of_def)

lemma puts_of_emitMessages [simp]: "puts_of i (emitMessages subs ts ms) = []"
  by (auto simp: puts_of_def emitMessages_def filter_empty_conv)

lemma puts_of_forward:
  "quiet fwd \<Longrightarrow> puts_of i (snd (fwd reg ps ts ms)) = []"
proof -
  assume q: "quiet fwd"
  have "e \<noteq> CachePut i" if "e \<in> set (snd (fwd reg ps ts ms))" for e
  proof -
    from q that obtain pid where "forward_event pid ms e" unfolding quiet_def by blast
    then show ?thesis by (cases e) auto
  qed
  then show ?thesis by (auto simp: puts_of_def filter_empty_conv)
qed

lemma processRpcMessage_puts:
  "quiet fwd \<Longrightarrow>
     puts_of i (snd (processRpcMessage fwd st m)) =
       (if idOf m = i \<and> i \<notin> cache st then [CachePut i] else [])"
  by (cases "idOf m \<in> cache st")
     (auto simp: processRpcMessage_cached processRpcMessage_fresh puts_of_forward)

lemma processRpcMessagesG_puts:
  "quiet fwd \<Longrightarrow>
     puts_of i (snd (processRpcMessagesG fwd st ms)) =
       (if i \<in> idOf ` set ms \<and> i \<notin> cache st then [CachePut i] else [])"
proof (induction ms arbitrary: st)
  case Nil
  then show ?case by simp
next
  case (Cons m ms)
  show ?case
    using Cons.IH [OF Cons.prems, of "fst (processRpcMessage fwd st m)"] Cons.prems
    by (auto simp: processRpcMessagesG_Cons processRpcMessage_puts processRpcMessage_cache
          simp del: processRpcMessagesG.simps(2))
qed

lemma onRpcG_puts:
  "quiet fwd \<Longrightarrow>
     puts_of i (snd (onRpcG fwd st k r)) =
       (if i \<in> idOf ` set (msgs_of r) \<and> i \<notin> cache st then [CachePut i] else [])"
  by (cases r)
     (auto simp: onRpcG_def Let_def split_beta processRpcMessagesG_puts normalizeInRpcMessages_def
        split: option.splits)

lemma onRpcsG_puts:
  "quiet fwd \<Longrightarrow>
     puts_of i (snd (onRpcsG fwd st rs)) =
       (if i \<in> idOf ` set (delivered rs) \<and> i \<notin> cache st then [CachePut i] else [])"
proof (induction rs arbitrary: st)
  case Nil
  then show ?case by (simp add: delivered_def)
next
  case (Cons kr rs)
  obtain k r where kr: "kr = (k, r)" by (cases kr)
  have d: "delivered ((k, r) # rs) = msgs_of r @ delivered rs" by (simp add: delivered_def)
  show ?case
    using Cons.IH [OF Cons.prems, of "fst (onRpcG fwd st k r)"] Cons.prems
    by (auto simp: kr onRpcsG_Cons d onRpcG_puts onRpcG_cache simp del: onRpcsG.simps(2))
qed

lemma dedupG:
  assumes q: "quiet fwd"
  shows "(idOf m \<in> cache st \<longrightarrow> processRpcMessagesG fwd st [m] = (st, [])) \<and>
         (idOf m \<notin> cache st \<longrightarrow>
            (\<exists>rest. snd (processRpcMessagesG fwd st [m]) =
                      CachePut (idOf m) # emitMessages (subscriptions st) (topicIDs m) [m] @ rest \<and>
                    (\<forall>e \<in> set rest. \<not> is_Emit e)) \<and>
            idOf m \<in> cache (fst (processRpcMessagesG fwd st [m]))) \<and>
         emits_of i (snd (onRpcsG fwd st rs)) =
           first_emits (cache st) (subscriptions st) i (delivered rs) \<and>
         length (puts_of i (snd (onRpcsG fwd st rs))) \<le> 1"
proof -
  have a: "processRpcMessagesG fwd st [m] = (st, [])" if "idOf m \<in> cache st"
    using that by (simp add: processRpcMessage_cached)
  have b: "\<exists>rest. snd (processRpcMessagesG fwd st [m]) =
                      CachePut (idOf m) # emitMessages (subscriptions st) (topicIDs m) [m] @ rest \<and>
                    (\<forall>e \<in> set rest. \<not> is_Emit e)" if n: "idOf m \<notin> cache st"
  proof (cases "hops m = 0")
    case True
    with n show ?thesis by (simp add: processRpcMessage_fresh)
  next
    case False
    let ?F = "fwd (fwrdHooks st) (peers st) (topicIDs m) [m\<lparr>hops := (if hops m > 0 then hops m - 1 else hops m)\<rparr>]"
    have "\<not> is_Emit e" if "e \<in> set (snd ?F)" for e
    proof -
      from q that obtain pid where "forward_event pid [m\<lparr>hops := (if hops m > 0 then hops m - 1 else hops m)\<rparr>] e"
        unfolding quiet_def by blast
      then show ?thesis by (cases e) auto
    qed
    with n False show ?thesis by (simp add: processRpcMessage_fresh)
  qed
  have c: "idOf m \<in> cache (fst (processRpcMessagesG fwd st [m]))"
    by (simp add: processRpcMessagesG_cache del: processRpcMessagesG.simps)
  from a b c onRpcsG_emits [OF q] onRpcsG_puts [OF q, of i st rs] show ?thesis by auto
qed

text \<open>
  C1. In both forms of the engine: a received message whose identifier the cache holds
  leaves the state as it is and causes no event, so no local emit and no forward. For a
  message whose identifier the cache does not hold, the trace starts with the insertion
  of the identifier, the local emits follow it, no other emit follows them, and the
  cache holds the identifier afterwards. Over a whole run of deliveries, from whatever
  peers, the local emits for an identifier are those of the first delivered message that
  bears it, or none when the cache held it at the start, and the identifier is inserted
  at most once.
\<close>

theorem dedup:
  "(idOf m \<in> cache s \<longrightarrow> processRpcMessages s [m] = (s, [])) \<and>
   (idOf m \<in> cache sA \<longrightarrow> processRpcMessagesA sA [m] = (sA, [])) \<and>
   (idOf m \<notin> cache s \<longrightarrow>
      (\<exists>rest. snd (processRpcMessages s [m]) =
                CachePut (idOf m) # emitMessages (subscriptions s) (topicIDs m) [m] @ rest \<and>
              (\<forall>e \<in> set rest. \<not> is_Emit e)) \<and>
      idOf m \<in> cache (fst (processRpcMessages s [m]))) \<and>
   (idOf m \<notin> cache sA \<longrightarrow>
      (\<exists>rest. snd (processRpcMessagesA sA [m]) =
                CachePut (idOf m) # emitMessages (subscriptions sA) (topicIDs m) [m] @ rest \<and>
              (\<forall>e \<in> set rest. \<not> is_Emit e)) \<and>
      idOf m \<in> cache (fst (processRpcMessagesA sA [m]))) \<and>
   emits_of i (snd (onRpcs s rs)) = first_emits (cache s) (subscriptions s) i (delivered rs) \<and>
   emits_of i (snd (onRpcsA sA rs)) = first_emits (cache sA) (subscriptions sA) i (delivered rs) \<and>
   length (puts_of i (snd (onRpcs s rs))) \<le> 1 \<and>
   length (puts_of i (snd (onRpcsA sA rs))) \<le> 1"
  using dedupG [OF quiet_forwardMessages, of m s i rs] dedupG [OF quiet_forwardMessagesA, of m sA i rs]
  unfolding processRpcMessages_def processRpcMessagesA_def onRpcs_def onRpcsA_def
  by blast

theorem dedup_witness:
  "idOf msgZ \<in> cache (nodeA\<lparr>cache := {''QmZs1''}\<rparr> :: validator multicast) \<and>
   processRpcMessages (nodeA\<lparr>cache := {''QmZs1''}\<rparr>) [msgZ] = (nodeA\<lparr>cache := {''QmZs1''}\<rparr>, []) \<and>
   idOf msgZ \<notin> cache (nodeA :: hook multicast) \<and>
   idOf msgZ \<in> cache (fst (processRpcMessagesA nodeA [msgZ])) \<and>
   emits_of ''QmZs1''
     (snd (onRpcsA nodeA [(''QmB'', Some (rpc_of [msgZ])), (''QmC'', Some (rpc_of [msgZ]))])) =
     [Emit ''foo'' msgZ]"
proof -
  have i: "idOf msgZ = ''QmZs1''" by (simp add: idOf_def msgId_def toString_def msgZ_def)
  have c: "idOf msgZ \<in> cache (nodeA\<lparr>cache := {''QmZs1''}\<rparr> :: validator multicast)" by (simp add: i)
  have n: "idOf msgZ \<notin> cache (nodeA :: hook multicast)" by (simp add: nodeA_def)
  have f: "first_emits (cache (nodeA :: hook multicast)) (subscriptions (nodeA :: hook multicast)) ''QmZs1''
             (delivered [(''QmB'', Some (rpc_of [msgZ])), (''QmC'', Some (rpc_of [msgZ]))]) =
           [Emit ''foo'' msgZ]"
    by (simp add: first_emits_def delivered_def nodeA_def i emitMessages_def) (simp add: msgZ_def)
  from dedup [of msgZ "nodeA\<lparr>cache := {''QmZs1''}\<rparr>" nodeA "''QmZs1''"
                 "[(''QmB'', Some (rpc_of [msgZ])), (''QmC'', Some (rpc_of [msgZ]))]"] c n f
  show ?thesis by simp
qed





lemma buildMessages_eq:
  "buildMessages frm ts h rng i payloads c =
     (map (\<lambda>(j, d). \<lparr>msg_from = frm, data = d, seqno = Buffer_from (rng j), hops = h, topicIDs = ts\<rparr>)
        (zip [i ..< i + length payloads] payloads),
      c \<union> (\<lambda>j. msgId frm (rng j)) ` {i ..< i + length payloads},
      map (\<lambda>j. CachePut (msgId frm (rng j))) [i ..< i + length payloads])"
proof (induction payloads arbitrary: i c)
  case Nil
  show ?case by simp
next
  case (Cons d ds)
  have "i < Suc (i + length ds)" by simp
  then have "[i ..< Suc (i + length ds)] = i # [Suc i ..< Suc (i + length ds)]"
    by (rule upt_conv_Cons)
  then have u: "[i ..< i + length (d # ds)] = i # [Suc i ..< Suc i + length ds]"
    by (simp only: length_Cons add_Suc_right add_Suc)
  have v: "{i ..< i + length (d # ds)} = insert i {Suc i ..< Suc i + length ds}"
    by auto
  show ?case
    unfolding u v by (simp add: Cons.IH Let_def)
qed

lemma publishG_started:
  assumes "started st"
  shows "publishG fwd st ts payloads h rng =
     Inr (st\<lparr>cache := cache st \<union> (\<lambda>j. msgId (libp2p_peerId st) (rng j)) ` {0 ..< length payloads},
             peers := fst (fwd (fwrdHooks st) (peers st) ts
                (map (\<lambda>(j, d). \<lparr>msg_from = libp2p_peerId st, data = d, seqno = Buffer_from (rng j),
                                 hops = h, topicIDs = ts\<rparr>) (zip [0 ..< length payloads] payloads)))\<rparr>,
          Log (LogPublish ts payloads) #
          map (\<lambda>j. CachePut (msgId (libp2p_peerId st) (rng j))) [0 ..< length payloads] @
          emitMessages (subscriptions st) ts
            (map (\<lambda>(j, d). \<lparr>msg_from = libp2p_peerId st, data = d, seqno = Buffer_from (rng j),
                             hops = h, topicIDs = ts\<rparr>) (zip [0 ..< length payloads] payloads)) @
          snd (fwd (fwrdHooks st) (peers st) ts
                (map (\<lambda>(j, d). \<lparr>msg_from = libp2p_peerId st, data = d, seqno = Buffer_from (rng j),
                                 hops = h, topicIDs = ts\<rparr>) (zip [0 ..< length payloads] payloads))))"
  using assms
  by (simp add: publishG_def buildMessages_eq [where i = 0, simplified] Let_def split_beta)

lemma self_echoG:
  assumes q: "quiet fwd" and p: "publishG fwd st ts payloads h rng = Inr (st', evs)"
  shows "take (Suc (length payloads)) evs =
           Log (LogPublish ts payloads) #
           map (\<lambda>j. CachePut (msgId (libp2p_peerId st) (rng j))) [0 ..< length payloads] \<and>
         (\<forall>j < length payloads. \<forall>m.
            msg_from m = libp2p_peerId st \<and> seqno m = Buffer_from (rng j) \<longrightarrow>
              processRpcMessagesG fwd st' [m] = (st', []) \<and>
              (\<forall>rs. emits_of (idOf m) (snd (onRpcsG fwd st' rs)) = []))"
proof -
  have st: "started st" using p by (auto simp: publishG_def split: if_splits)
  note e = p [unfolded publishG_started [OF st]]
  have c: "cache st' = cache st \<union> (\<lambda>j. msgId (libp2p_peerId st) (rng j)) ` {0 ..< length payloads}"
    using e by auto
  have t: "take (Suc (length payloads)) evs =
           Log (LogPublish ts payloads) #
           map (\<lambda>j. CachePut (msgId (libp2p_peerId st) (rng j))) [0 ..< length payloads]"
    using e by auto
  have r: "processRpcMessagesG fwd st' [m] = (st', []) \<and>
           (\<forall>rs. emits_of (idOf m) (snd (onRpcsG fwd st' rs)) = [])"
    if "j < length payloads" "msg_from m = libp2p_peerId st" "seqno m = Buffer_from (rng j)" for j m
  proof -
    have "idOf m = msgId (libp2p_peerId st) (rng j)"
      using that by (simp add: idOf_def toString_def Buffer_from_def)
    with that(1) c have i: "idOf m \<in> cache st'" by auto
    then show ?thesis
      by (simp add: processRpcMessage_cached onRpcsG_emits [OF q] first_emits_def)
  qed
  from t r show ?thesis by blast
qed

text \<open>
  C5. In both forms of the engine, the trace of a \<^verbatim>\<open>publish\<close> starts with its log line
  and the insertion into the cache of the identifier of every message that it builds;
  the local emits and the forward come after. Afterwards a received message that bears
  the sender and the sequence number of a published one leaves the state as it is and
  causes no event, and no later run of deliveries emits a message with its identifier.
\<close>

theorem self_echo:
  "(publish s ts payloads h rng = Inr (s', evs) \<longrightarrow>
      take (Suc (length payloads)) evs =
        Log (LogPublish ts payloads) #
        map (\<lambda>j. CachePut (msgId (libp2p_peerId s) (rng j))) [0 ..< length payloads] \<and>
      (\<forall>j < length payloads. \<forall>m.
         msg_from m = libp2p_peerId s \<and> seqno m = Buffer_from (rng j) \<longrightarrow>
           processRpcMessages s' [m] = (s', []) \<and>
           (\<forall>rs. emits_of (idOf m) (snd (onRpcs s' rs)) = []))) \<and>
   (publishA sA ts payloads h rng = Inr (sA', evsA) \<longrightarrow>
      take (Suc (length payloads)) evsA =
        Log (LogPublish ts payloads) #
        map (\<lambda>j. CachePut (msgId (libp2p_peerId sA) (rng j))) [0 ..< length payloads] \<and>
      (\<forall>j < length payloads. \<forall>m.
         msg_from m = libp2p_peerId sA \<and> seqno m = Buffer_from (rng j) \<longrightarrow>
           processRpcMessagesA sA' [m] = (sA', []) \<and>
           (\<forall>rs. emits_of (idOf m) (snd (onRpcsA sA' rs)) = [])))"
  using self_echoG [OF quiet_forwardMessages, of s ts payloads h rng s' evs]
        self_echoG [OF quiet_forwardMessagesA, of sA ts payloads h rng sA' evsA]
  unfolding publish_def publishA_def processRpcMessages_def processRpcMessagesA_def onRpcs_def onRpcsA_def
  by blast
theorem self_echo_witness:
  "\<exists>s' evs. publishA nodeA [''foo''] [''x''] 1 (\<lambda>j. ''r0'') = Inr (s', evs) \<and>
     take 2 evs = [Log (LogPublish [''foo''] [''x'']), CachePut ''QmAr0''] \<and>
     processRpcMessagesA s'
       [\<lparr>msg_from = ''QmA'', data = ''x'', seqno = ''r0'', hops = 0, topicIDs = [''foo'']\<rparr>] = (s', [])"
proof -
  have st: "started (nodeA :: hook multicast)" by (simp add: nodeA_def)
  obtain s' evs where p: "publishA nodeA [''foo''] [''x''] 1 (\<lambda>j. ''r0'') = Inr (s', evs)"
    unfolding publishA_def publishG_started [OF st] by blast
  have l: "libp2p_peerId (nodeA :: hook multicast) = ''QmA''" by (simp add: nodeA_def)
  from self_echo [of nodeA "[''foo'']" "[''x'']" 1 "\<lambda>j. ''r0''" "nodeA\<lparr>peers := []\<rparr>" "[]" nodeA s' evs] p
  have "take 2 evs = [Log (LogPublish [''foo''] [''x'']), CachePut ''QmAr0''] \<and>
        processRpcMessagesA s'
          [\<lparr>msg_from = ''QmA'', data = ''x'', seqno = ''r0'', hops = 0, topicIDs = [''foo'']\<rparr>] = (s', [])"
    by (simp add: l msgId_def Buffer_from_def numeral_2_eq_2)
  with p show ?thesis by blast
qed

section \<open>Validators in the forward procedure\<close>

lemma sent_append [simp]: "sent (a @ b) = sent a @ sent b"
  by (simp add: sent_def)

lemma sent_simps [simp]:
  "sent [] = []"
  "sent (Log l # a) = sent a"
  "sent (Push k (rpc_of ms) # a) = map (Pair k) ms @ sent a"
  by (simp_all add: sent_def)

lemma hookTest_True:
  "hookTest hs p t m = Inr True \<longleftrightarrow> t \<in> set (topicIDs m) \<and> (\<forall>h \<in> set hs. run_hook h p m = Approve)"
  by (simp add: hookTest_def every_True)

lemma forwardTopicA_hooks:
  assumes "stream p = Some s" and "map_of reg t = Some hs"
  shows "forwardTopicA reg ts ms t (p, evs) =
    (case filter_async (hookTest hs p t) ms of
       Inl err \<Rightarrow> (p, evs @ [Log LogHasHooks, Log (LogError err)])
     | Inr l \<Rightarrow>
         if l \<noteq> [] then
           (p\<lparr>stream := Some (s @ [rpc_of l])\<rparr>,
            evs @ [Log LogHasHooks, Push (info p) (rpc_of l), Log (LogPublishMsgs ts (info p))])
         else (p, evs @ [Log LogHasHooks]))"
  using assms
  by (simp add: forwardTopicA_def sendMessages_writable normalizeOutRpcMessages_def split: sum.splits)

lemma forwardTopicA_nohooks:
  assumes "stream p = Some s" and "map_of reg t = None"
  shows "forwardTopicA reg ts ms t (p, evs) =
    (p\<lparr>stream := Some (s @ [rpc_of ms])\<rparr>,
     evs @ [Log LogNoHooks, Push (info p) (rpc_of ms), Log (LogPublishMsgs ts (info p))])"
  using assms
  by (simp add: forwardTopicA_def sendMessages_writable normalizeOutRpcMessages_def)

lemma filter_async_cases:
  "(\<exists>x \<in> set xs. \<exists>e. f x = Inl e) \<and> (\<exists>e. filter_async f xs = Inl e) \<or>
   (\<forall>x \<in> set xs. \<forall>e. f x \<noteq> Inl e) \<and> filter_async f xs = Inr (filter (\<lambda>x. f x = Inr True) xs)"
proof (cases "filter_async f xs")
  case (Inl e)
  with filter_async_Inl [OF Inl] show ?thesis by auto
next
  case (Inr r)
  then show ?thesis by (auto simp: filter_async_Inr)
qed

lemma forwardPeer_sent:
  assumes "stream p = Some s" and "set (topics p) \<inter> set ts \<noteq> {}"
  shows "sent (snd (forwardPeer reg ts ms p)) = map (Pair (info p)) (filter (valid_for reg p (topics p)) ms)"
  by (simp add: forwardPeer_eligible [OF assms])

lemma forwardTopicA_fold_pair:
  "\<exists>p' new. fold (forwardTopicA reg ts ms) tps (p, evs) = (p', evs @ new) \<and>
     p' = p\<lparr>stream := stream p'\<rparr> \<and> (isWritable p \<longleftrightarrow> isWritable p')"
proof -
  obtain p' evs' where f: "fold (forwardTopicA reg ts ms) tps (p, evs) = (p', evs')" by fastforce
  from forwardTopicA_fold [OF f] f show ?thesis by auto
qed

lemma forwardPeerA_sends:
  assumes w: "stream q = Some s" and a: "set (topics q) \<inter> set ts \<noteq> {}"
    and t: "t \<in> set (topics q)" "t \<in> set (topicIDs m)" and m: "m \<in> set ms"
    and pass: "map_of reg t = None \<or>
         (\<exists>hs. map_of reg t = Some hs \<and>
            (\<forall>s'. \<forall>h \<in> set hs. run_hook h (q\<lparr>stream := s'\<rparr>) m = Approve) \<and>
            (\<forall>s'. \<forall>m' \<in> set ms. \<forall>e. hookTest hs (q\<lparr>stream := s'\<rparr>) t m' \<noteq> Inl e))"
  shows "(info q, m) \<in> set (sent (snd (forwardPeerA reg ts ms q)))"
proof -
  let ?f = "forwardTopicA reg ts ms"
  from t(1) obtain pre post where sp: "topics q = pre @ t # post" by (auto dest: split_list)
  obtain p1 e1 where 1: "fold ?f pre (q, []) = (p1, e1)"
    and p1: "p1 = q\<lparr>stream := stream p1\<rparr>" and w1: "isWritable q \<longleftrightarrow> isWritable p1"
    using forwardTopicA_fold_pair [of reg ts ms pre q "[]"] by auto
  from w w1 obtain s1 where s1: "stream p1 = Some s1" by (auto simp: isWritable_def)
  have i1: "info p1 = info q" by (subst p1) simp
  have push: "\<exists>p2 pre2 l post2. ?f t (p1, e1) = (p2, pre2 @ Push (info q) (rpc_of l) # post2) \<and> m \<in> set l"
  proof (cases "map_of reg t")
    case None
    have "?f t (p1, e1) = (p1\<lparr>stream := Some (s1 @ [rpc_of ms])\<rparr>,
            (e1 @ [Log LogNoHooks]) @ Push (info q) (rpc_of ms) # [Log (LogPublishMsgs ts (info q))])"
      by (simp add: forwardTopicA_nohooks [OF s1 None] i1)
    with m show ?thesis by blast
  next
    case (Some hs)
    with pass have ap: "\<forall>h \<in> set hs. run_hook h (q\<lparr>stream := stream p1\<rparr>) m = Approve"
      and ne: "\<forall>m' \<in> set ms. \<forall>e. hookTest hs (q\<lparr>stream := stream p1\<rparr>) t m' \<noteq> Inl e"
      by auto
    from ap p1 have ap1: "\<forall>h \<in> set hs. run_hook h p1 m = Approve" by simp
    from ne p1 have ne1: "\<forall>m' \<in> set ms. \<forall>e. hookTest hs p1 t m' \<noteq> Inl e" by simp
    let ?l = "filter (\<lambda>x. hookTest hs p1 t x = Inr True) ms"
    from ne1 filter_async_cases [of ms "hookTest hs p1 t"]
    have fa: "filter_async (hookTest hs p1 t) ms = Inr ?l" by auto
    have ml: "m \<in> set ?l" using m t(2) ap1 by (simp add: hookTest_True)
    then have "?l \<noteq> []" by (metis empty_iff list.set(1))
    then have "?f t (p1, e1) = (p1\<lparr>stream := Some (s1 @ [rpc_of ?l])\<rparr>,
            (e1 @ [Log LogHasHooks]) @ Push (info q) (rpc_of ?l) # [Log (LogPublishMsgs ts (info q))])"
      by (simp add: forwardTopicA_hooks [OF s1 Some] fa i1)
    with ml show ?thesis by blast
  qed
  then obtain p2 pre2 l post2 where 2: "?f t (p1, e1) = (p2, pre2 @ Push (info q) (rpc_of l) # post2)"
    and ml: "m \<in> set l" by blast
  obtain p3 new where 3: "fold ?f post (p2, pre2 @ Push (info q) (rpc_of l) # post2) =
      (p3, (pre2 @ Push (info q) (rpc_of l) # post2) @ new)"
    using forwardTopicA_fold_pair [of reg ts ms post p2 "pre2 @ Push (info q) (rpc_of l) # post2"] by auto
  have "forwardPeerA reg ts ms q = (p3, (pre2 @ Push (info q) (rpc_of l) # post2) @ new)"
    using w a by (simp add: forwardPeerA_def isWritable_def anyMatch_iff sp 1 2 3)
  with ml show ?thesis by simp
qed

lemma sent_concat: "sent (concat xs) = concat (map sent xs)"
  by (induction xs) simp_all

lemma forwardMessagesA_sent_mono:
  "(k, q) \<in> set ps \<Longrightarrow> x \<in> set (sent (snd (forwardPeerA reg ts ms q))) \<Longrightarrow>
     x \<in> set (sent (snd (forwardMessagesA reg ps ts ms)))"
  by (force simp: forwardMessagesA_map sent_concat)

lemma forwardMessages_sent_mono:
  "(k, q) \<in> set ps \<Longrightarrow> x \<in> set (sent (snd (forwardPeer reg ts ms q))) \<Longrightarrow>
     x \<in> set (sent (snd (forwardMessages reg ps ts ms)))"
  by (force simp: forwardMessages_map sent_concat)

text \<open>
  C3, as the spec states it, fails in both forms of the forward procedure. With
  synchronous validators, peer D announced foo and bar, the message is addressed to
  both, the one validator of foo rejects it and bar has no validator, so the message
  passes bar: D is sent a record without the message. With callback hooks, the hook of
  foo approves one message of a batch and errors on the other: the peer is sent
  nothing.
\<close>

theorem forward_passing_topic_counterexample:
  "isWritable peerD \<and> ''bar'' \<in> set (topics peerD) \<and> ''bar'' \<in> set (topicIDs msgFB) \<and>
   map_of [(''foo'', [rejectAll])] ''bar'' = None \<and>
   sent (snd (forwardMessages [(''foo'', [rejectAll])] [(''QmD'', peerD)] (topicIDs msgFB) [msgFB])) = [] \<and>
   isWritable peerB \<and> ''foo'' \<in> set (topics peerB) \<and> ''foo'' \<in> set (topicIDs msgZ) \<and>
   map_of [(''foo'', [failBad])] ''foo'' = Some [failBad] \<and>
   run_hook failBad peerB msgZ = Approve \<and>
   sent (snd (forwardMessagesA [(''foo'', [failBad])] [(''QmB'', peerB)] (topicIDs msgZ) [msgZ, msgBad])) = []"
  by (simp add: isWritable_def peerD_def peerB_def msgFB_def msgZ_def msgBad_def rejectAll_def failBad_def
        forwardPeer_def forwardPeerA_def forwardTopicA_def anyMatch_def filterValid_def hookTest_def
        sendMessages_def peer_write_def normalizeOutRpcMessages_def sent_def)


text \<open>
  C3, amended. For a peer q of the peer map with a writable stream that shares a topic
  with the forwarded topics, and a message m of the batch: with callback hooks, m is
  sent to q whenever some topic t of both \<^verbatim>\<open>q.topics\<close> and \<^verbatim>\<open>m.topicIDs\<close> has no entry in
  the registry, or has one all of whose hooks approve m and none of whose tests errors
  on a message of the batch, whatever the stream of q holds at that point; with
  synchronous validators, m is sent to q whenever it passes the validators of every
  topic of \<^verbatim>\<open>q.topics\<close>.
\<close>

theorem forward_passing_topic:
  assumes "stream q = Some s" and "set (topics q) \<inter> set ts \<noteq> {}" and "(k, q) \<in> set ps"
    and "m \<in> set ms"
  shows "((\<exists>t. t \<in> set (topics q) \<and> t \<in> set (topicIDs m) \<and>
             (map_of regA t = None \<or>
              (\<exists>hs. map_of regA t = Some hs \<and>
                 (\<forall>s'. \<forall>h \<in> set hs. run_hook h (q\<lparr>stream := s'\<rparr>) m = Approve) \<and>
                 (\<forall>s'. \<forall>m' \<in> set ms. \<forall>e. hookTest hs (q\<lparr>stream := s'\<rparr>) t m' \<noteq> Inl e)))) \<longrightarrow>
          (info q, m) \<in> set (sent (snd (forwardMessagesA regA ps ts ms)))) \<and>
         (valid_for reg q (topics q) m \<longrightarrow>
          (info q, m) \<in> set (sent (snd (forwardMessages reg ps ts ms))))"
proof (intro conjI impI)
  assume "\<exists>t. t \<in> set (topics q) \<and> t \<in> set (topicIDs m) \<and>
             (map_of regA t = None \<or>
              (\<exists>hs. map_of regA t = Some hs \<and>
                 (\<forall>s'. \<forall>h \<in> set hs. run_hook h (q\<lparr>stream := s'\<rparr>) m = Approve) \<and>
                 (\<forall>s'. \<forall>m' \<in> set ms. \<forall>e. hookTest hs (q\<lparr>stream := s'\<rparr>) t m' \<noteq> Inl e)))"
  then obtain t where t: "t \<in> set (topics q)" "t \<in> set (topicIDs m)"
    and pass: "map_of regA t = None \<or>
              (\<exists>hs. map_of regA t = Some hs \<and>
                 (\<forall>s'. \<forall>h \<in> set hs. run_hook h (q\<lparr>stream := s'\<rparr>) m = Approve) \<and>
                 (\<forall>s'. \<forall>m' \<in> set ms. \<forall>e. hookTest hs (q\<lparr>stream := s'\<rparr>) t m' \<noteq> Inl e))"
    by blast
  from forwardPeerA_sends [OF assms(1,2) t assms(4) pass]
  show "(info q, m) \<in> set (sent (snd (forwardMessagesA regA ps ts ms)))"
    by (rule forwardMessagesA_sent_mono [OF assms(3)])
next
  assume "valid_for reg q (topics q) m"
  with assms(4) have "(info q, m) \<in> set (sent (snd (forwardPeer reg ts ms q)))"
    by (simp add: forwardPeer_sent [OF assms(1,2)])
  then show "(info q, m) \<in> set (sent (snd (forwardMessages reg ps ts ms)))"
    by (rule forwardMessages_sent_mono [OF assms(3)])
qed


theorem forward_passing_topic_witness:
  "stream peerD = Some [] \<and> set (topics peerD) \<inter> set [''foo'', ''bar''] \<noteq> {} \<and>
   msgFB \<in> set [msgFB] \<and> ''bar'' \<in> set (topics peerD) \<and> ''bar'' \<in> set (topicIDs msgFB) \<and>
   map_of [(''foo'', [failAll]), (''bar'', [approveAll])] ''bar'' = Some [approveAll] \<and>
   (''QmD'', msgFB) \<in> set (sent (snd (forwardMessagesA [(''foo'', [failAll]), (''bar'', [approveAll])]
       [(''QmD'', peerD)] [''foo'', ''bar''] [msgFB]))) \<and>
   valid_for [] peerD (topics peerD) msgFB \<and>
   (''QmD'', msgFB) \<in> set (sent (snd (forwardMessages [] [(''QmD'', peerD)] [''foo'', ''bar''] [msgFB])))"
proof -
  have 1: "stream peerD = Some []" by (simp add: peerD_def)
  have 2: "set (topics peerD) \<inter> set [''foo'', ''bar''] \<noteq> {}" by (simp add: peerD_def)
  have 3: "(''QmD'', peerD) \<in> set [(''QmD'', peerD)]" by simp
  have 4: "msgFB \<in> set [msgFB]" by simp
  have 5: "''bar'' \<in> set (topics peerD)" "''bar'' \<in> set (topicIDs msgFB)"
    by (simp_all add: peerD_def msgFB_def)
  have 6: "map_of [(''foo'', [failAll]), (''bar'', [approveAll])] ''bar'' = Some [approveAll]" by simp
  have 7: "\<forall>s'. \<forall>h \<in> set [approveAll]. run_hook h (peerD\<lparr>stream := s'\<rparr>) msgFB = Approve"
    by (simp add: approveAll_def)
  have 8: "\<forall>s'. \<forall>m' \<in> set [msgFB]. \<forall>e. hookTest [approveAll] (peerD\<lparr>stream := s'\<rparr>) ''bar'' m' \<noteq> Inl e"
    by (simp add: approveAll_def hookTest_def)
  have 9: "valid_for [] peerD (topics peerD) msgFB" by (simp add: valid_for_def)
  have i: "info peerD = ''QmD''" by (simp add: peerD_def)
  have h: "\<exists>t. t \<in> set (topics peerD) \<and> t \<in> set (topicIDs msgFB) \<and>
             (map_of [(''foo'', [failAll]), (''bar'', [approveAll])] t = None \<or>
              (\<exists>hs. map_of [(''foo'', [failAll]), (''bar'', [approveAll])] t = Some hs \<and>
                 (\<forall>s'. \<forall>h \<in> set hs. run_hook h (peerD\<lparr>stream := s'\<rparr>) msgFB = Approve) \<and>
                 (\<forall>s'. \<forall>m' \<in> set [msgFB]. \<forall>e. hookTest hs (peerD\<lparr>stream := s'\<rparr>) t m' \<noteq> Inl e)))"
    using 5 6 7 8 by blast
  from forward_passing_topic [OF 1 2 3 4, of "[(''foo'', [failAll]), (''bar'', [approveAll])]" "[]"] h 9
  have "(''QmD'', msgFB) \<in> set (sent (snd (forwardMessagesA [(''foo'', [failAll]), (''bar'', [approveAll])]
       [(''QmD'', peerD)] [''foo'', ''bar''] [msgFB]))) \<and>
     (''QmD'', msgFB) \<in> set (sent (snd (forwardMessages [] [(''QmD'', peerD)] [''foo'', ''bar''] [msgFB])))"
    unfolding i by blast
  with 1 2 4 5 6 9 show ?thesis by blast
qed

text \<open>
  C4. A message is forwarded to a peer for a topic exactly when every validator
  registered for the topic approves it, and when a validator errors the message is
  dropped for that peer, the error is logged and does not escape. The doc comment of
  the registry says the same in both forms of the engine: if any of the validators
  fail, the message is not forwarded to the peer. The form with callback hooks does
  log the error and go on, but it does not drop the message for the peer. Peer D
  announced foo and bar. With a hook of foo that errors and a hook of bar that
  approves, a message addressed to both topics is pushed to D in the iteration for bar.
  With no entry for bar, a message addressed to foo alone is pushed to D in the
  iteration for bar, whether the hook of foo errors or rejects. The form with
  synchronous validators sends D no message when the validator of foo rejects.
\<close>

theorem validator_failure_bypassed:
  "run_hook failAll peerD msgFB = Fail (Error ''boom'') \<and>
   snd (forwardMessagesA [(''foo'', [failAll]), (''bar'', [approveAll])] [(''QmD'', peerD)]
          (topicIDs msgFB) [msgFB]) =
     [Log LogHasHooks, Log (LogError (Error ''boom'')),
      Log LogHasHooks, Push ''QmD'' (rpc_of [msgFB]), Log (LogPublishMsgs [''foo'', ''bar''] ''QmD'')] \<and>
   sent (snd (forwardMessagesA [(''foo'', [failAll]), (''bar'', [approveAll])] [(''QmD'', peerD)]
          (topicIDs msgFB) [msgFB])) = [(''QmD'', msgFB)] \<and>
   topicIDs msgZ = [''foo''] \<and> run_hook failAll peerD msgZ = Fail (Error ''boom'') \<and>
   snd (forwardMessagesA [(''foo'', [failAll])] [(''QmD'', peerD)] (topicIDs msgZ) [msgZ]) =
     [Log LogHasHooks, Log (LogError (Error ''boom'')),
      Log LogNoHooks, Push ''QmD'' (rpc_of [msgZ]), Log (LogPublishMsgs [''foo''] ''QmD'')] \<and>
   run_hook rejectHook peerD msgZ = Reject \<and>
   sent (snd (forwardMessagesA [(''foo'', [rejectHook])] [(''QmD'', peerD)] (topicIDs msgZ) [msgZ])) =
     [(''QmD'', msgZ)] \<and>
   validate rejectAll peerD msgFB = False \<and>
   sent (snd (forwardMessages [(''foo'', [rejectAll])] [(''QmD'', peerD)] (topicIDs msgFB) [msgFB])) = [] \<and>
   sent (snd (forwardMessages [(''foo'', [rejectAll])] [(''QmD'', peerD)] (topicIDs msgZ) [msgZ])) = []"
  by (simp add: peerD_def msgFB_def msgZ_def failAll_def approveAll_def rejectHook_def rejectAll_def
        isWritable_def forwardPeerA_def forwardTopicA_def forwardPeer_def filterValid_def
        anyMatch_def hookTest_def sendMessages_def peer_write_def normalizeOutRpcMessages_def
        sent_def rpc_of_def)

section \<open>Properties of the facade\<close>

text \<open>
  C9. The facade reads the hooks to install from \<^verbatim>\<open>options.frwdHook\<close>, not from
  \<^verbatim>\<open>options.frwdHooks\<close>. A call of \<^verbatim>\<open>subscribe\<close> on a started node with one hook in
  \<^verbatim>\<open>frwdHooks\<close> subscribes the engine to the topic and then throws a \<^verbatim>\<open>TypeError\<close>: the
  registry of the engine stays empty and the handler is not registered.
\<close>

theorem facade_subscribe_frwdHooks:
  "facade_subscribe facadeA ''foo'' (Some \<lparr>frwdHooks = Some [approveAll], frwdHook = None\<rparr>) 7 =
     (facadeA\<lparr>multicast := nodeA\<lparr>subscriptions := [''foo''],
         peers := [(''QmB'', peerB\<lparr>stream := Some [\<lparr>rpc_subscriptions =
                      Some [\<lparr>so_subscribe = True, topicCID = ''foo''\<rparr>], rpc_msgs = None\<rparr>]\<rparr>),
                   (''QmC'', peerC)]\<rparr>\<rparr>,
      [Push ''QmB'' \<lparr>rpc_subscriptions = Some [\<lparr>so_subscribe = True, topicCID = ''foo''\<rparr>], rpc_msgs = None\<rparr>,
       OnConnection ''QmC''],
      Thrown (TypeError ''Cannot read property forEach of undefined'')) \<and>
   fwrdHooks (multicast (fst (facade_subscribe facadeA ''foo''
       (Some \<lparr>frwdHooks = Some [approveAll], frwdHook = None\<rparr>) 7))) = [] \<and>
   listeners (fst (facade_subscribe facadeA ''foo''
       (Some \<lparr>frwdHooks = Some [approveAll], frwdHook = None\<rparr>) 7)) = []"
  by (simp add: facade_subscribe_def facadeA_def listenerCount_def subscribe_def nodeA_def set_add_def
        isWritable_def peerB_def peerC_def sendSubscriptions_def sendRawSubscriptions_def peer_write_def)

end
